theory Spec2Isabelle
  imports
    Main
    "HOL-Library.AList"
    "HOL-Library.Char_ord"
    "HOL-Library.List_Lexorder"
    "HOL-Library.Multiset"
begin

section \<open>PyRisk: the board, the game state and the attack rule of world.py\<close>

text \<open>
  The module keeps its whole state in globals: the adjacency \<^verbatim>\<open>defaultdict\<close>
  \<^verbatim>\<open>_NEIGHBORS\<close>, the sorted name list \<^verbatim>\<open>_TERRITORIES\<close>, the dictionaries
  \<^verbatim>\<open>_OWNER\<close> and \<^verbatim>\<open>_TROOPS\<close>, the player names, the turn pointer and the
  last-event string. The model threads one record of these globals through every
  function. Python dictionaries keep insertion order, so a dictionary is an association
  list: a store to a present key replaces the value in place, a store to a new key
  appends (\<open>AList.update\<close>); a lookup is \<open>map_of\<close>. Python integers are \<open>int\<close>.
  A raised exception is a value: every operation returns its result, or the exception,
  together with the state the globals are left in.
\<close>

subsection \<open>Python strings: whitespace, line boundaries, splitting, decimal numerals\<close>

datatype py_error = KeyError | IndexError | ZeroDivisionError

definition NL :: char where
  "NL = CHR 0x0A"

definition is_space :: "char \<Rightarrow> bool" where
  \<comment> \<open>\<^verbatim>\<open>str.isspace\<close> on the code points below 256\<close>
  "is_space c = (c \<in> set [CHR 0x09, CHR 0x0A, CHR 0x0B, CHR 0x0C, CHR 0x0D, CHR 0x1C,
                           CHR 0x1D, CHR 0x1E, CHR 0x1F, CHR 0x20, CHR 0x85, CHR 0xA0])"

definition is_linebreak :: "char \<Rightarrow> bool" where
  \<comment> \<open>the line boundaries of \<^verbatim>\<open>str.splitlines\<close> on the code points below 256\<close>
  "is_linebreak c = (c \<in> set [CHR 0x0A, CHR 0x0B, CHR 0x0C, CHR 0x0D, CHR 0x1C, CHR 0x1D,
                               CHR 0x1E, CHR 0x85])"

definition strip :: "string \<Rightarrow> string" where
  "strip s = rev (dropWhile is_space (rev (dropWhile is_space s)))"

fun splitlines_from :: "string \<Rightarrow> string \<Rightarrow> string list" where
  "splitlines_from cur [] = (if cur = [] then [] else [cur])"
| "splitlines_from cur (c # cs) =
     (if c = CHR 0x0D then
        (case cs of
           [] \<Rightarrow> cur # splitlines_from [] cs
         | d # ds \<Rightarrow> if d = CHR 0x0A then cur # splitlines_from [] ds
                     else cur # splitlines_from [] cs)
      else if is_linebreak c then cur # splitlines_from [] cs
      else splitlines_from (cur @ [c]) cs)"

definition splitlines :: "string \<Rightarrow> string list" where
  "splitlines s = splitlines_from [] s"

fun split_dashes_from :: "string \<Rightarrow> string \<Rightarrow> string list" where
  \<comment> \<open>\<^verbatim>\<open>line.split("--")\<close>: leftmost, non-overlapping separators\<close>
  "split_dashes_from cur [] = [cur]"
| "split_dashes_from cur [c] = [cur @ [c]]"
| "split_dashes_from cur (c # d # cs) =
     (if c = CHR ''-'' \<and> d = CHR ''-'' then cur # split_dashes_from [] cs
      else split_dashes_from (cur @ [c]) (d # cs))"

definition split_dashes :: "string \<Rightarrow> string list" where
  "split_dashes s = split_dashes_from [] s"

definition join_lines :: "string list \<Rightarrow> string" where
  \<comment> \<open>\<^verbatim>\<open>"\n".join(lines)\<close>\<close>
  "join_lines ls = (case ls of [] \<Rightarrow> [] | l # rest \<Rightarrow> l @ concat (map (\<lambda>x. NL # x) rest))"

definition digit_char :: "nat \<Rightarrow> char" where
  "digit_char d = char_of (48 + d)"

function str_nat :: "nat \<Rightarrow> string" where
  "str_nat n = (if n < 10 then [digit_char n] else str_nat (n div 10) @ [digit_char (n mod 10)])"
  by pat_completeness auto
termination
  by (relation "measure id") auto

declare str_nat.simps [simp del]

definition str_int :: "int \<Rightarrow> string" where
  \<comment> \<open>\<^verbatim>\<open>str(i)\<close>, which is also what an f-string writes for \<^verbatim>\<open>{i}\<close>\<close>
  "str_int i = (if i < 0 then CHR ''-'' # str_nat (nat (- i)) else str_nat (nat i))"

definition fmt_s :: "nat \<Rightarrow> string \<Rightarrow> string" where
  \<comment> \<open>\<^verbatim>\<open>{t:24s}\<close>: left-aligned, filled with spaces up to the width, never cut\<close>
  "fmt_s w t = t @ replicate (w - length t) CHR '' ''"

definition fmt_d :: "nat \<Rightarrow> int \<Rightarrow> string" where
  \<comment> \<open>\<^verbatim>\<open>{x:2d}\<close>: right-aligned, filled with spaces up to the width, never cut\<close>
  "fmt_d w x = replicate (w - length (str_int x)) CHR '' '' @ str_int x"

subsection \<open>The board definition\<close>

definition CONNECT_LINES :: "string list" where
  \<comment> \<open>the text of the literal, line by line\<close>
  "CONNECT_LINES =
   [''Alaska--Northwest Territories--Alberta--Alaska'',
    ''Alberta--Ontario--Greenland--Northwest Territories'',
    ''Greenland--Quebec--Ontario--Eastern United States--Quebec'',
    ''Alberta--Western United States--Ontario--Northwest Territories'',
    ''Western United States--Eastern United States--Mexico--Western United States'',
    '''',
    ''Venezuala--Peru--Argentina--Brazil'',
    ''Peru--Brazil--Venezuala'',
    '''',
    ''North Africa--Egypt--East Africa--North Africa'',
    ''North Africa--Congo--East Africa--South Africa--Congo'',
    ''East Africa--Madagascar--South Africa'',
    '''',
    ''Indonesia--Western Australia--Eastern Australia--New Guinea--Indonesia'',
    ''Western Australia--New Guinea'',
    '''',
    ''Iceland--Great Britain--Western Europe--Southern Europe--Northern Europe--Western Europe'',
    ''Northern Europe--Great Britain--Scandanavia--Northern Europe--Ukraine--Scandanavia--Iceland'',
    ''Southern Europe--Ukraine'',
    '''',
    ''Middle East--India--South East Asia--China--Mongolia--Japan--Kamchatka--Yakutsk--Irkutsk--Kamchatka--Mongolia--Irkutsk'',
    ''Yakutsk--Siberia--Irkutsk'',
    ''China--Siberia--Mongolia'',
    ''Siberia--Ural--China--Afghanistan--Ural'',
    ''Middle East--Afghanistan--India--China'',
    '''',
    ''Mexico--Venezuala'',
    ''Brazil--North Africa'',
    ''Western Europe--North Africa--Southern Europe--Egypt--Middle East--East Africa'',
    ''Southern Europe--Middle East--Ukraine--Afghanistan--Ural'',
    ''Ukraine--Ural'',
    ''Greenland--Iceland'',
    ''Alaska--Kamchatka'',
    ''South East Asia--Indonesia'']"

definition CONNECT :: string where
  \<comment> \<open>every line of the literal ends with a newline; \<^verbatim>\<open>textwrap.dedent\<close> finds no
      common indentation and returns the text as it is\<close>
  "CONNECT = concat (map (\<lambda>l. l @ [NL]) CONNECT_LINES)"

subsection \<open>The globals of the module\<close>

type_synonym 'v dict = "(string \<times> 'v) list"

record world =
  NEIGHBORS :: "string list dict"
  TERRITORIES :: "string list"
  OWNER :: "int dict"
  TROOPS :: "int dict"
  PLAYERS :: "string list"
  CUR :: int
  LAST :: string

definition dd_getitem :: "string list dict \<Rightarrow> string \<Rightarrow> string list \<times> string list dict" where
  \<comment> \<open>\<^verbatim>\<open>_NEIGHBORS[k]\<close> on a \<^verbatim>\<open>defaultdict(list)\<close>: a missing key is stored with
      the empty list, then returned\<close>
  "dd_getitem d k = (case map_of d k of Some v \<Rightarrow> (v, d) | None \<Rightarrow> ([], d @ [(k, [])]))"

definition getitem :: "'v dict \<Rightarrow> string \<Rightarrow> py_error + 'v" where
  \<comment> \<open>\<^verbatim>\<open>d[k]\<close> on a plain \<^verbatim>\<open>dict\<close>\<close>
  "getitem d k = (case map_of d k of Some v \<Rightarrow> Inr v | None \<Rightarrow> Inl KeyError)"

definition list_getitem :: "'a list \<Rightarrow> int \<Rightarrow> py_error + 'a" where
  \<comment> \<open>\<^verbatim>\<open>xs[i]\<close>: a negative index counts from the end\<close>
  "list_getitem xs i =
     (if 0 \<le> i \<and> i < int (length xs) then Inr (xs ! nat i)
      else if i < 0 \<and> - int (length xs) \<le> i then Inr (xs ! nat (int (length xs) + i))
      else Inl IndexError)"

subsection \<open>Building the adjacency graph\<close>

definition add_nbr :: "string \<Rightarrow> string \<Rightarrow> string list dict \<Rightarrow> string list dict" where
  \<comment> \<open>\<^verbatim>\<open>if b not in _NEIGHBORS[a]: _NEIGHBORS[a].append(b)\<close>\<close>
  "add_nbr a b G =
     (let (na, G1) = dd_getitem G a
      in if b \<notin> set na then AList.update a (na @ [b]) G1 else G1)"

definition link :: "string \<Rightarrow> string \<Rightarrow> string list dict \<Rightarrow> string list dict" where
  \<comment> \<open>the body of the inner loop of \<^verbatim>\<open>_build_graph\<close> for one pair \<open>(a, b)\<close>: first
      \<open>b\<close> into the list of \<open>a\<close>, then \<open>a\<close> into the list of \<open>b\<close>\<close>
  "link a b G = add_nbr b a (add_nbr a b G)"

definition pairs_of_line :: "string \<Rightarrow> (string \<times> string) list" where
  \<comment> \<open>\<^verbatim>\<open>zip(vals, vals[1:])\<close> for one line of the board definition\<close>
  "pairs_of_line line = (let vals = map strip (split_dashes line) in zip vals (drop 1 vals))"

definition link_line :: "string \<Rightarrow> string list dict \<Rightarrow> string list dict" where
  "link_line line G = fold (\<lambda>(a, b). link a b) (pairs_of_line line) G"

definition chain_pairs :: "(string \<times> string) list" where
  \<comment> \<open>every pair \<open>(a, b)\<close> the two loops of \<^verbatim>\<open>_build_graph\<close> visit, in order\<close>
  "chain_pairs = concat (map pairs_of_line (splitlines (strip CONNECT)))"

definition build_graph :: "world \<Rightarrow> world" where
  \<comment> \<open>\<^verbatim>\<open>sorted\<close> compares strings character by character, by code point: the order
      of \<open>string\<close> with \<open>Char_ord\<close> and \<open>List_Lexorder\<close>\<close>
  "build_graph s =
     (let G = fold link_line (splitlines (strip CONNECT)) (NEIGHBORS s)
      in s\<lparr>NEIGHBORS := G, TERRITORIES := sort (map fst G)\<rparr>)"

definition module_init :: world where
  \<comment> \<open>the globals once the module is imported: the graph built, no game started\<close>
  "module_init =
     (build_graph \<lparr>NEIGHBORS = [], TERRITORIES = [], OWNER = [], TROOPS = [],
                   PLAYERS = [], CUR = 0, LAST = []\<rparr>)
       \<lparr>OWNER := [], TROOPS := [], PLAYERS := [], CUR := 0, LAST := []\<rparr>"

definition nbrs :: "string list dict \<Rightarrow> string \<Rightarrow> string list" where
  \<comment> \<open>the list \<^verbatim>\<open>_NEIGHBORS[k]\<close> evaluates to\<close>
  "nbrs G k = fst (dd_getitem G k)"

subsection \<open>The functional API\<close>

type_synonym 'a result = "(py_error + 'a) \<times> world"

definition py_range :: "int \<Rightarrow> int list" where
  \<comment> \<open>\<^verbatim>\<open>range(n)\<close>: empty when \<open>n \<le> 0\<close>\<close>
  "py_range n = [0..n - 1]"

definition player_names :: "int \<Rightarrow> string list" where
  "player_names n = map (\<lambda>i. ''AI_'' @ str_int i) (py_range n)"

fun deal :: "int \<Rightarrow> int \<Rightarrow> string list \<Rightarrow> int dict \<Rightarrow> py_error + int dict" where
  \<comment> \<open>\<^verbatim>\<open>{t: idx % n_players for idx, t in enumerate(deck)}\<close>, from index \<open>idx\<close> on\<close>
  "deal n idx [] d = Inr d"
| "deal n idx (t # ts) d =
     (if n = 0 then Inl ZeroDivisionError
      else deal n (idx + 1) ts (AList.update t (idx mod n) d))"

definition one_each :: "string list \<Rightarrow> int dict" where
  \<comment> \<open>\<^verbatim>\<open>{t: 1 for t in _TERRITORIES}\<close>\<close>
  "one_each ts = fold (\<lambda>t. AList.update t 1) ts []"

definition reset :: "int \<Rightarrow> string list \<Rightarrow> world \<Rightarrow> unit result" where
  \<comment> \<open>\<open>deck\<close> is the list \<^verbatim>\<open>random.shuffle\<close> leaves behind: some permutation of the
      territories. The three scalar globals are assigned before the deal can raise.\<close>
  "reset n_players deck s =
     (let s1 = s\<lparr>PLAYERS := player_names n_players, CUR := 0, LAST := ''Game reset''\<rparr>
      in case deal n_players 0 deck [] of
           Inl e \<Rightarrow> (Inl e, s1)
         | Inr d \<Rightarrow> (Inr (), s1\<lparr>OWNER := d, TROOPS := one_each (TERRITORIES s1)\<rparr>))"

definition my_territories :: "world \<Rightarrow> string list result" where
  "my_territories s = (Inr (map fst (filter (\<lambda>(t, p). p = CUR s) (OWNER s))), s)"

definition get_neighbors :: "string \<Rightarrow> world \<Rightarrow> string list result" where
  "get_neighbors terr s =
     (let (v, G) = dd_getitem (NEIGHBORS s) terr in (Inr v, s\<lparr>NEIGHBORS := G\<rparr>))"

definition is_enemy :: "string \<Rightarrow> world \<Rightarrow> bool result" where
  "is_enemy terr s =
     (case getitem (OWNER s) terr of
        Inl e \<Rightarrow> (Inl e, s)
      | Inr p \<Rightarrow> (Inr (p \<noteq> CUR s), s))"

definition troops :: "string \<Rightarrow> world \<Rightarrow> int result" where
  "troops terr s = (getitem (TROOPS s) terr, s)"

definition owner :: "string \<Rightarrow> world \<Rightarrow> int result" where
  "owner terr s = (getitem (OWNER s) terr, s)"

definition capture :: "string \<Rightarrow> string \<Rightarrow> int \<Rightarrow> world \<Rightarrow> bool result" where
  \<comment> \<open>the success branch of \<^verbatim>\<open>attack\<close>; \<open>ta\<close> is the value \<^verbatim>\<open>_TROOPS[att]\<close> was just
      read as. The dictionaries are written before the message is built.\<close>
  "capture att tgt ta s =
     (let s1 = s\<lparr>OWNER := AList.update tgt (CUR s) (OWNER s)\<rparr>;
          move = max 1 (ta div 2);
          s2 = s1\<lparr>TROOPS := AList.update att (ta - move) (TROOPS s1)\<rparr>;
          s3 = s2\<lparr>TROOPS := AList.update tgt move (TROOPS s2)\<rparr>
      in if length (PLAYERS s3) = 0 then (Inl ZeroDivisionError, s3)
         else
           (let prev = (CUR s3 - 1) mod int (length (PLAYERS s3))
            in case list_getitem (PLAYERS s3) (CUR s3) of
                 Inl e \<Rightarrow> (Inl e, s3)
               | Inr me \<Rightarrow>
                   (case list_getitem (PLAYERS s3) prev of
                      Inl e \<Rightarrow> (Inl e, s3)
                    | Inr other \<Rightarrow>
                        (Inr True, s3\<lparr>LAST := me @ '' took '' @ tgt @ '' from '' @ other\<rparr>))))"

definition attack :: "string \<Rightarrow> string \<Rightarrow> world \<Rightarrow> bool result" where
  "attack att tgt s0 =
     (let (nb, G) = dd_getitem (NEIGHBORS s0) att;
          s = s0\<lparr>NEIGHBORS := G\<rparr>
      in if tgt \<notin> set nb then (Inr False, s\<lparr>LAST := ''Invalid adjacency''\<rparr>)
         else
           (case getitem (OWNER s) att of
              Inl e \<Rightarrow> (Inl e, s)
            | Inr oa \<Rightarrow>
                if oa \<noteq> CUR s then (Inr False, s\<lparr>LAST := ''Invalid ownership''\<rparr>)
                else
                  (case getitem (OWNER s) tgt of
                     Inl e \<Rightarrow> (Inl e, s)
                   | Inr ot \<Rightarrow>
                       if ot = CUR s then (Inr False, s\<lparr>LAST := ''Invalid ownership''\<rparr>)
                       else
                         (case getitem (TROOPS s) att of
                            Inl e \<Rightarrow> (Inl e, s)
                          | Inr ta \<Rightarrow>
                              (case getitem (TROOPS s) tgt of
                                 Inl e \<Rightarrow> (Inl e, s)
                               | Inr tt \<Rightarrow>
                                   if ta \<le> tt + 1
                                   then (Inr False, s\<lparr>LAST := ''Not enough troops''\<rparr>)
                                   else capture att tgt ta s)))))"

fun all_owned_by :: "int dict \<Rightarrow> int \<Rightarrow> string list \<Rightarrow> py_error + bool" where
  \<comment> \<open>\<^verbatim>\<open>all(owner(t) == first for t in ...)\<close>: stops at the first mismatch\<close>
  "all_owned_by d first [] = Inr True"
| "all_owned_by d first (t # ts) =
     (case getitem d t of
        Inl e \<Rightarrow> Inl e
      | Inr p \<Rightarrow> if p = first then all_owned_by d first ts else Inr False)"

definition game_over :: "world \<Rightarrow> bool result" where
  "game_over s =
     (case list_getitem (TERRITORIES s) 0 of
        Inl e \<Rightarrow> (Inl e, s)
      | Inr t0 \<Rightarrow>
          (case getitem (OWNER s) t0 of
             Inl e \<Rightarrow> (Inl e, s)
           | Inr first \<Rightarrow> (all_owned_by (OWNER s) first (TERRITORIES s), s)))"

definition next_player :: "world \<Rightarrow> unit result" where
  "next_player s =
     (if length (PLAYERS s) = 0 then (Inl ZeroDivisionError, s)
      else (Inr (), s\<lparr>CUR := (CUR s + 1) mod int (length (PLAYERS s))\<rparr>))"

definition current_player :: "world \<Rightarrow> int result" where
  "current_player s = (Inr (CUR s), s)"

definition map_line :: "world \<Rightarrow> string \<Rightarrow> py_error + string" where
  \<comment> \<open>\<^verbatim>\<open>f"{t:24s} troops={_TROOPS[t]:2d} owner=AI{_OWNER[t]}"\<close>\<close>
  "map_line s t =
     (case getitem (TROOPS s) t of
        Inl e \<Rightarrow> Inl e
      | Inr k \<Rightarrow>
          (case getitem (OWNER s) t of
             Inl e \<Rightarrow> Inl e
           | Inr p \<Rightarrow> Inr (fmt_s 24 t @ '' troops='' @ fmt_d 2 k @ '' owner=AI'' @ str_int p)))"

fun map_lines :: "world \<Rightarrow> string list \<Rightarrow> py_error + string list" where
  "map_lines s [] = Inr []"
| "map_lines s (t # ts) =
     (case map_line s t of
        Inl e \<Rightarrow> Inl e
      | Inr l \<Rightarrow> (case map_lines s ts of Inl e \<Rightarrow> Inl e | Inr ls \<Rightarrow> Inr (l # ls)))"

definition get_map :: "world \<Rightarrow> string result" where
  "get_map s =
     (case map_lines s (TERRITORIES s) of
        Inl e \<Rightarrow> (Inl e, s)
      | Inr ls \<Rightarrow> (Inr (join_lines ls), s))"

definition last_event :: "world \<Rightarrow> string result" where
  "last_event s = (Inr (LAST s), s)"

subsection \<open>Sequences of calls\<close>

datatype call =
    Attack string string
  | Next_player
  | My_territories
  | Get_neighbors string
  | Is_enemy string
  | Troops string
  | Owner string
  | Game_over
  | Current_player
  | Get_map
  | Last_event

fun exec :: "call \<Rightarrow> world \<Rightarrow> world" where
  \<comment> \<open>the globals after one call, whatever it returned or raised\<close>
  "exec (Attack att tgt) s = snd (attack att tgt s)"
| "exec Next_player s = snd (next_player s)"
| "exec My_territories s = snd (my_territories s)"
| "exec (Get_neighbors t) s = snd (get_neighbors t s)"
| "exec (Is_enemy t) s = snd (is_enemy t s)"
| "exec (Troops t) s = snd (troops t s)"
| "exec (Owner t) s = snd (owner t s)"
| "exec Game_over s = snd (game_over s)"
| "exec Current_player s = snd (current_player s)"
| "exec Get_map s = snd (get_map s)"
| "exec Last_event s = snd (last_event s)"

definition run :: "call list \<Rightarrow> world \<Rightarrow> world" where
  "run cs s = fold exec cs s"

subsection \<open>State predicates\<close>

definition board_ok :: "world \<Rightarrow> bool" where
  \<comment> \<open>the board is the one built at import: the sorted names, and the adjacency
      dictionary followed by the keys a missed lookup has stored since, each with
      the empty list\<close>
  "board_ok s =
     (TERRITORIES s = TERRITORIES module_init \<and>
      take (length (NEIGHBORS module_init)) (NEIGHBORS s) = NEIGHBORS module_init \<and>
      list_all (\<lambda>(k, v). v = []) (drop (length (NEIGHBORS module_init)) (NEIGHBORS s)))"

definition players_ok :: "int \<Rightarrow> world \<Rightarrow> bool" where
  \<comment> \<open>what \<^verbatim>\<open>reset(n)\<close> leaves in \<^verbatim>\<open>_PLAYERS\<close>, and a turn pointer inside it\<close>
  "players_ok n s = (1 \<le> n \<and> PLAYERS s = player_names n \<and> 0 \<le> CUR s \<and> CUR s < n)"

definition dicts_ok :: "world \<Rightarrow> bool" where
  \<comment> \<open>both dictionaries have exactly the territories as keys\<close>
  "dicts_ok s =
     (set (map fst (OWNER s)) = set (TERRITORIES s) \<and>
      set (map fst (TROOPS s)) = set (TERRITORIES s))"

definition owner_in :: "int \<Rightarrow> world \<Rightarrow> string \<Rightarrow> bool" where
  "owner_in n s t = (case map_of (OWNER s) t of None \<Rightarrow> False | Some p \<Rightarrow> 0 \<le> p \<and> p < n)"

definition troops_ge1 :: "world \<Rightarrow> string \<Rightarrow> bool" where
  "troops_ge1 s t = (case map_of (TROOPS s) t of None \<Rightarrow> False | Some k \<Rightarrow> 1 \<le> k)"

definition game_inv :: "int \<Rightarrow> world \<Rightarrow> bool" where
  \<comment> \<open>every territory has an owner in \<open>[0, n)\<close> and at least one troop\<close>
  "game_inv n s = list_all (\<lambda>t. owner_in n s t \<and> troops_ge1 s t) (TERRITORIES s)"

definition owned_by :: "world \<Rightarrow> int \<Rightarrow> string list" where
  \<comment> \<open>the territories of player \<open>p\<close>, in canonical order\<close>
  "owned_by s p = filter (\<lambda>t. map_of (OWNER s) t = Some p) (TERRITORIES s)"

subsection \<open>Reading the map dump back\<close>

text \<open>
  The source only writes the dump. The three definitions below follow the spec's words
  for its format (``name padded to 24 columns, \<^verbatim>\<open>troops=\<close> and a padded integer,
  \<^verbatim>\<open>owner=AI\<close> and an integer''): they are the reader a consumer of the text would
  write, and serve to state that a line determines its territory, troop count and owner.
\<close>

definition is_digit :: "char \<Rightarrow> bool" where
  "is_digit c = (48 \<le> (of_char c :: nat) \<and> (of_char c :: nat) \<le> 57)"

fun spec_nat_of_digits :: "string \<Rightarrow> nat \<Rightarrow> nat option" where
  "spec_nat_of_digits [] acc = Some acc"
| "spec_nat_of_digits (c # cs) acc =
     (if is_digit c then spec_nat_of_digits cs (10 * acc + (of_char c - 48)) else None)"

definition spec_int_of_str :: "string \<Rightarrow> int option" where
  "spec_int_of_str s =
     (case s of
        [] \<Rightarrow> None
      | c # cs \<Rightarrow>
          if c = CHR ''-''
          then (if cs = [] then None else map_option (\<lambda>n. - int n) (spec_nat_of_digits cs 0))
          else map_option int (spec_nat_of_digits s 0))"

definition spec_parse_map_line :: "string \<Rightarrow> (string \<times> int \<times> int) option" where
  "spec_parse_map_line l =
     (let name = rev (dropWhile (\<lambda>c. c = CHR '' '') (rev (take 24 l)));
          rest = drop 24 l
      in if take 8 rest \<noteq> '' troops='' then None
         else
           (let field = dropWhile (\<lambda>c. c = CHR '' '') (drop 8 rest);
                num = takeWhile (\<lambda>c. c \<noteq> CHR '' '') field;
                rest' = dropWhile (\<lambda>c. c \<noteq> CHR '' '') field
            in if take 9 rest' \<noteq> '' owner=AI'' then None
               else
                 (case (spec_int_of_str num, spec_int_of_str (drop 9 rest')) of
                    (Some tr, Some ow) \<Rightarrow> Some (name, tr, ow)
                  | _ \<Rightarrow> None)))"

subsection \<open>Two states used as examples\<close>

definition game2 :: world where
  \<comment> \<open>a fresh two-player game, the shuffle having left the deck in sorted order\<close>
  "game2 = snd (reset 2 (TERRITORIES module_init) module_init)"

definition scenario :: "int \<Rightarrow> world" where
  \<comment> \<open>the spec's test scenario: in a two-player game, Alaska is forced to player 0 with
      \<open>k\<close> troops and its neighbour Kamchatka to player 1 (with the 1 troop it has)\<close>
  "scenario k =
     game2\<lparr>OWNER := AList.update ''Kamchatka'' 1 (AList.update ''Alaska'' 0 (OWNER game2)),
           TROOPS := AList.update ''Alaska'' k (TROOPS game2)\<rparr>"

definition conquered :: world where
  \<comment> \<open>the two-player game once player 0 holds every territory\<close>
  "conquered = game2\<lparr>OWNER := map (\<lambda>t. (t, 0)) (TERRITORIES game2)\<rparr>"

section \<open>Properties\<close>

subsection \<open>Lines of text\<close>

lemma NL_linebreak: "is_linebreak NL" "NL \<noteq> CHR 0x0D" "is_space NL"
  by (simp_all add: is_linebreak_def NL_def is_space_def)

lemma CR_linebreak: "is_linebreak (CHR 0x0D)"
  by (simp add: is_linebreak_def)

lemma splitlines_from_plain:
  "\<forall>c\<in>set l. \<not> is_linebreak c \<Longrightarrow>
     splitlines_from cur (l @ rest) = splitlines_from (cur @ l) rest"
proof (induction l arbitrary: cur)
  case Nil
  then show ?case by simp
next
  case (Cons c l)
  then have "c \<noteq> CHR 0x0D" "\<not> is_linebreak c"
    using CR_linebreak by auto
  with Cons show ?case by simp
qed

lemma splitlines_from_NL:
  "splitlines_from cur (NL # rest) = cur # splitlines_from [] rest"
  using NL_linebreak by simp

lemma join_lines_Cons:
  "join_lines (l # l' # ls) = l @ NL # join_lines (l' # ls)"
  by (simp add: join_lines_def)

lemma join_lines_single: "join_lines [l] = l"
  by (simp add: join_lines_def)

lemma splitlines_from_join:
  "\<forall>l\<in>set (l0 # ls). \<forall>c\<in>set l. \<not> is_linebreak c \<Longrightarrow>
   last (l0 # ls) \<noteq> [] \<Longrightarrow> ls \<noteq> [] \<or> cur @ l0 \<noteq> [] \<Longrightarrow>
     splitlines_from cur (join_lines (l0 # ls)) = (cur @ l0) # ls"
proof (induction ls arbitrary: l0 cur)
  case Nil
  then show ?case
    using splitlines_from_plain [of l0 cur "[]"] by (simp add: join_lines_single)
next
  case (Cons l1 ls)
  have "splitlines_from cur (join_lines (l0 # l1 # ls)) =
          splitlines_from (cur @ l0) (NL # join_lines (l1 # ls))"
    using Cons.prems(1) splitlines_from_plain [of l0 cur "NL # join_lines (l1 # ls)"]
    by (simp add: join_lines_Cons)
  also have "\<dots> = (cur @ l0) # splitlines_from [] (join_lines (l1 # ls))"
    by (rule splitlines_from_NL)
  also have "splitlines_from [] (join_lines (l1 # ls)) = ([] @ l1) # ls"
    using Cons.prems by (intro Cons.IH) auto
  finally show ?case by simp
qed

lemma splitlines_join:
  "\<forall>l\<in>set ls. \<forall>c\<in>set l. \<not> is_linebreak c \<Longrightarrow> ls \<noteq> [] \<Longrightarrow> last ls \<noteq> [] \<Longrightarrow>
     splitlines (join_lines ls) = ls"
proof -
  assume a: "\<forall>l\<in>set ls. \<forall>c\<in>set l. \<not> is_linebreak c" "ls \<noteq> []" "last ls \<noteq> []"
  then obtain l0 r where ls: "ls = l0 # r" by (cases ls) auto
  have "r \<noteq> [] \<or> [] @ l0 \<noteq> []" using a ls by (cases r) auto
  then show ?thesis
    using a splitlines_from_join [of l0 r "[]"] unfolding ls splitlines_def by simp
qed

lemma unlines_join: "ls \<noteq> [] \<Longrightarrow> concat (map (\<lambda>l. l @ [NL]) ls) = join_lines ls @ [NL]"
proof (induction ls)
  case Nil
  then show ?case by simp
next
  case (Cons l ls)
  then show ?case
    by (cases ls) (simp_all add: join_lines_def)
qed

lemma hd_join_lines: "ls \<noteq> [] \<Longrightarrow> hd ls \<noteq> [] \<Longrightarrow> hd (join_lines ls) = hd (hd ls)"
  by (cases ls) (simp_all add: join_lines_def)

lemma last_join_lines: "ls \<noteq> [] \<Longrightarrow> last ls \<noteq> [] \<Longrightarrow> last (join_lines ls) = last (last ls)"
proof (induction ls)
  case Nil
  then show ?case by simp
next
  case (Cons l ls)
  show ?case
  proof (cases ls)
    case Nil
    then show ?thesis by (simp add: join_lines_single)
  next
    case (Cons l' ls')
    have ne: "join_lines (l' # ls') \<noteq> []"
      using Cons.prems Cons
      by (cases ls') (auto simp: join_lines_def)
    from Cons.IH Cons.prems Cons ne show ?thesis
      by (simp add: join_lines_Cons)
  qed
qed

lemma join_lines_nonempty: "ls \<noteq> [] \<Longrightarrow> hd ls \<noteq> [] \<Longrightarrow> join_lines ls \<noteq> []"
  by (cases ls) (simp_all add: join_lines_def)

lemma strip_trailing_NL:
  "x \<noteq> [] \<Longrightarrow> \<not> is_space (hd x) \<Longrightarrow> \<not> is_space (last x) \<Longrightarrow> strip (x @ [NL]) = x"
proof -
  assume a: "x \<noteq> []" "\<not> is_space (hd x)" "\<not> is_space (last x)"
  have 1: "dropWhile is_space (x @ [NL]) = x @ [NL]"
    using a by (cases x) auto
  have 2: "dropWhile is_space (rev x) = rev x"
    using a by (cases "rev x") (auto simp: last_rev hd_rev dest: arg_cong [where f = hd])
  show ?thesis
    using NL_linebreak(3) by (simp add: strip_def 1 2)
qed

lemma CONNECT_LINES_plain: "\<forall>l\<in>set CONNECT_LINES. \<forall>c\<in>set l. \<not> is_linebreak c"
  unfolding CONNECT_LINES_def by code_simp

lemma CONNECT_LINES_ends:
  "CONNECT_LINES \<noteq> [] \<and> hd CONNECT_LINES \<noteq> [] \<and> last CONNECT_LINES \<noteq> [] \<and>
   \<not> is_space (hd (hd CONNECT_LINES)) \<and> \<not> is_space (last (last CONNECT_LINES))"
  unfolding CONNECT_LINES_def by code_simp

lemma lines_of_CONNECT: "splitlines (strip CONNECT) = CONNECT_LINES"
proof -
  have "strip CONNECT = join_lines CONNECT_LINES"
    unfolding CONNECT_def
    using CONNECT_LINES_ends
    by (simp add: unlines_join strip_trailing_NL join_lines_nonempty hd_join_lines last_join_lines)
  then show ?thesis
    using CONNECT_LINES_plain CONNECT_LINES_ends by (simp add: splitlines_join)
qed

subsection \<open>The adjacency dictionary\<close>

lemma nbrs_alt: "nbrs G k = (case map_of G k of Some v \<Rightarrow> v | None \<Rightarrow> [])"
  by (simp add: nbrs_def dd_getitem_def split: option.split)

lemma fst_dd_getitem: "fst (dd_getitem G k) = nbrs G k"
  by (simp add: nbrs_def)

lemma nbrs_dd_getitem: "nbrs (snd (dd_getitem G k)) x = nbrs G x"
  by (auto simp: nbrs_alt dd_getitem_def map_add_def split: option.splits)

lemma keys_dd_getitem: "fst ` set (snd (dd_getitem G k)) = insert k (fst ` set G)"
  by (auto simp: dd_getitem_def split: option.splits dest: map_of_SomeD
           intro: rev_image_eqI)

lemma distinct_dd_getitem:
  "distinct (map fst G) \<Longrightarrow> distinct (map fst (snd (dd_getitem G k)))"
  by (auto simp: dd_getitem_def map_of_eq_None_iff split: option.splits)

lemma dd_getitem_present: "nbrs G k \<noteq> [] \<Longrightarrow> dd_getitem G k = (nbrs G k, G)"
  by (auto simp: nbrs_alt dd_getitem_def split: option.splits)

lemma nbrs_update: "nbrs (AList.update k v G) x = (if x = k then v else nbrs G x)"
  by (simp add: nbrs_alt update_conv')

lemma add_nbr_alt:
  "add_nbr a b G =
     (let G1 = snd (dd_getitem G a)
      in if b \<notin> set (nbrs G a) then AList.update a (nbrs G a @ [b]) G1 else G1)"
  by (simp add: add_nbr_def nbrs_def split: prod.splits)

lemma nbrs_add_nbr:
  "nbrs (add_nbr a b G) x =
     (if x = a \<and> b \<notin> set (nbrs G a) then nbrs G a @ [b] else nbrs G x)"
  by (simp add: add_nbr_alt Let_def nbrs_update nbrs_dd_getitem)

lemma keys_add_nbr: "fst ` set (add_nbr a b G) = insert a (fst ` set G)"
  by (auto simp: add_nbr_alt Let_def dom_update keys_dd_getitem)

lemma distinct_add_nbr: "distinct (map fst G) \<Longrightarrow> distinct (map fst (add_nbr a b G))"
  by (simp add: add_nbr_alt Let_def distinct_update distinct_dd_getitem)

lemma set_nbrs_link:
  "set (nbrs (link a b G) x) =
     set (nbrs G x) \<union> (if x = a then {b} else {}) \<union> (if x = b then {a} else {})"
  by (auto simp: link_def nbrs_add_nbr)

lemma distinct_nbrs_link:
  "distinct (nbrs G x) \<Longrightarrow> distinct (nbrs (link a b G) x)"
  by (auto simp: link_def nbrs_add_nbr)

lemma keys_link: "fst ` set (link a b G) = fst ` set G \<union> {a, b}"
  by (auto simp: link_def keys_add_nbr)

lemma distinct_keys_link: "distinct (map fst G) \<Longrightarrow> distinct (map fst (link a b G))"
  by (simp add: link_def distinct_add_nbr)

lemma set_nbrs_fold_link:
  "set (nbrs (fold (\<lambda>(a, b). link a b) ps G) x) =
     set (nbrs G x) \<union> {y. (x, y) \<in> set ps \<or> (y, x) \<in> set ps}"
proof (induction ps arbitrary: G)
  case Nil
  then show ?case by simp
next
  case (Cons p ps)
  obtain a b where p: "p = (a, b)" by (cases p)
  show ?case
    unfolding p by (auto simp: Cons.IH set_nbrs_link)
qed

lemma distinct_nbrs_fold_link:
  "distinct (nbrs G x) \<Longrightarrow> distinct (nbrs (fold (\<lambda>(a, b). link a b) ps G) x)"
  by (induction ps arbitrary: G) (auto simp: distinct_nbrs_link)

lemma keys_fold_link:
  "fst ` set (fold (\<lambda>(a, b). link a b) ps G) = fst ` set G \<union> fst ` set ps \<union> snd ` set ps"
proof (induction ps arbitrary: G)
  case Nil
  then show ?case by simp
next
  case (Cons p ps)
  obtain a b where p: "p = (a, b)" by (cases p)
  show ?case
    unfolding p by (auto simp: Cons.IH keys_link)
qed

lemma distinct_keys_fold_link:
  "distinct (map fst G) \<Longrightarrow> distinct (map fst (fold (\<lambda>(a, b). link a b) ps G))"
  by (induction ps arbitrary: G) (auto simp: distinct_keys_link)

lemma fold_link_line:
  "fold link_line ls G = fold (\<lambda>(a, b). link a b) (concat (map pairs_of_line ls)) G"
  by (induction ls arbitrary: G) (simp_all add: link_line_def)

subsection \<open>The graph built at import\<close>

lemma chain_pairs_eq: "chain_pairs = [(''Alaska'', ''Northwest Territories''),
  (''Northwest Territories'', ''Alberta''), (''Alberta'', ''Alaska''),
  (''Alberta'', ''Ontario''), (''Ontario'', ''Greenland''),
  (''Greenland'', ''Northwest Territories''), (''Greenland'', ''Quebec''),
  (''Quebec'', ''Ontario''), (''Ontario'', ''Eastern United States''),
  (''Eastern United States'', ''Quebec''),
  (''Alberta'', ''Western United States''),
  (''Western United States'', ''Ontario''),
  (''Ontario'', ''Northwest Territories''),
  (''Western United States'', ''Eastern United States''),
  (''Eastern United States'', ''Mexico''),
  (''Mexico'', ''Western United States''), (''Venezuala'', ''Peru''),
  (''Peru'', ''Argentina''), (''Argentina'', ''Brazil''),
  (''Peru'', ''Brazil''), (''Brazil'', ''Venezuala''),
  (''North Africa'', ''Egypt''), (''Egypt'', ''East Africa''),
  (''East Africa'', ''North Africa''), (''North Africa'', ''Congo''),
  (''Congo'', ''East Africa''), (''East Africa'', ''South Africa''),
  (''South Africa'', ''Congo''), (''East Africa'', ''Madagascar''),
  (''Madagascar'', ''South Africa''),
  (''Indonesia'', ''Western Australia''),
  (''Western Australia'', ''Eastern Australia''),
  (''Eastern Australia'', ''New Guinea''), (''New Guinea'', ''Indonesia''),
  (''Western Australia'', ''New Guinea''), (''Iceland'', ''Great Britain''),
  (''Great Britain'', ''Western Europe''),
  (''Western Europe'', ''Southern Europe''),
  (''Southern Europe'', ''Northern Europe''),
  (''Northern Europe'', ''Western Europe''),
  (''Northern Europe'', ''Great Britain''),
  (''Great Britain'', ''Scandanavia''),
  (''Scandanavia'', ''Northern Europe''),
  (''Northern Europe'', ''Ukraine''), (''Ukraine'', ''Scandanavia''),
  (''Scandanavia'', ''Iceland''), (''Southern Europe'', ''Ukraine''),
  (''Middle East'', ''India''), (''India'', ''South East Asia''),
  (''South East Asia'', ''China''), (''China'', ''Mongolia''),
  (''Mongolia'', ''Japan''), (''Japan'', ''Kamchatka''),
  (''Kamchatka'', ''Yakutsk''), (''Yakutsk'', ''Irkutsk''),
  (''Irkutsk'', ''Kamchatka''), (''Kamchatka'', ''Mongolia''),
  (''Mongolia'', ''Irkutsk''), (''Yakutsk'', ''Siberia''),
  (''Siberia'', ''Irkutsk''), (''China'', ''Siberia''),
  (''Siberia'', ''Mongolia''), (''Siberia'', ''Ural''),
  (''Ural'', ''China''), (''China'', ''Afghanistan''),
  (''Afghanistan'', ''Ural''), (''Middle East'', ''Afghanistan''),
  (''Afghanistan'', ''India''), (''India'', ''China''),
  (''Mexico'', ''Venezuala''), (''Brazil'', ''North Africa''),
  (''Western Europe'', ''North Africa''),
  (''North Africa'', ''Southern Europe''), (''Southern Europe'', ''Egypt''),
  (''Egypt'', ''Middle East''), (''Middle East'', ''East Africa''),
  (''Southern Europe'', ''Middle East''), (''Middle East'', ''Ukraine''),
  (''Ukraine'', ''Afghanistan''), (''Afghanistan'', ''Ural''),
  (''Ukraine'', ''Ural''), (''Greenland'', ''Iceland''),
  (''Alaska'', ''Kamchatka''), (''South East Asia'', ''Indonesia'')]"
  unfolding chain_pairs_def lines_of_CONNECT unfolding CONNECT_LINES_def by code_simp

lemma NEIGHBORS_init: "NEIGHBORS module_init = fold (\<lambda>(a, b). link a b) chain_pairs []"
  by (simp add: module_init_def build_graph_def chain_pairs_def fold_link_line Let_def)

lemma TERRITORIES_init: "TERRITORIES module_init = sort (map fst (NEIGHBORS module_init))"
  by (simp add: module_init_def build_graph_def Let_def)

lemma adjacent_iff:
  "b \<in> set (nbrs (NEIGHBORS module_init) a) \<longleftrightarrow>
     (a, b) \<in> set chain_pairs \<or> (b, a) \<in> set chain_pairs"
  unfolding NEIGHBORS_init set_nbrs_fold_link by (simp add: nbrs_alt)

lemma keys_init:
  "fst ` set (NEIGHBORS module_init) = fst ` set chain_pairs \<union> snd ` set chain_pairs"
  by (simp add: NEIGHBORS_init keys_fold_link)

lemma distinct_keys_init: "distinct (map fst (NEIGHBORS module_init))"
  by (simp add: NEIGHBORS_init distinct_keys_fold_link)

lemma set_TERRITORIES_init:
  "set (TERRITORIES module_init) = fst ` set chain_pairs \<union> snd ` set chain_pairs"
  by (simp add: TERRITORIES_init keys_init)

lemma sorted_TERRITORIES_init:
  "sorted (TERRITORIES module_init)" "distinct (TERRITORIES module_init)"
  by (simp_all add: TERRITORIES_init distinct_keys_init)

lemma chain_pairs_irrefl: "\<forall>(a, b)\<in>set chain_pairs. a \<noteq> b"
  unfolding chain_pairs_eq by code_simp

lemma count_list_distinct: "distinct xs \<Longrightarrow> count_list xs x \<le> 1"
  by (induction xs) auto

lemma chain_pairs_repeat: "\<not> distinct chain_pairs"
proof -
  have "count_list chain_pairs (''Afghanistan'', ''Ural'') = 2"
    unfolding chain_pairs_eq by code_simp
  then show ?thesis
    using count_list_distinct [of chain_pairs "(''Afghanistan'', ''Ural'')"] by auto
qed

text \<open>
  Claim C6. In the graph built at import, for all names \<open>A\<close> and \<open>B\<close>: if \<open>B\<close> is in
  the adjacency list of \<open>A\<close> then \<open>A\<close> is in the adjacency list of \<open>B\<close>; no name is in
  its own adjacency list; no adjacency list holds a name twice; and the connection
  chains do list a pair more than once (Afghanistan--Ural occurs in two chains).
  The list of a name is what \<^verbatim>\<open>_NEIGHBORS[name]\<close> evaluates to, so a name that is no
  territory has the empty list.
\<close>

theorem graph_symmetric:
  "(\<forall>A B. B \<in> set (nbrs (NEIGHBORS module_init) A) \<longrightarrow> A \<in> set (nbrs (NEIGHBORS module_init) B)) \<and>
   (\<forall>A. A \<notin> set (nbrs (NEIGHBORS module_init) A)) \<and>
   (\<forall>A. distinct (nbrs (NEIGHBORS module_init) A)) \<and>
   \<not> distinct chain_pairs"
proof (intro conjI allI impI)
  fix A B
  assume "B \<in> set (nbrs (NEIGHBORS module_init) A)"
  then show "A \<in> set (nbrs (NEIGHBORS module_init) B)"
    by (auto simp: adjacent_iff)
next
  fix A
  show "A \<notin> set (nbrs (NEIGHBORS module_init) A)"
    using chain_pairs_irrefl by (auto simp: adjacent_iff)
next
  fix A
  show "distinct (nbrs (NEIGHBORS module_init) A)"
    unfolding NEIGHBORS_init by (rule distinct_nbrs_fold_link) (simp add: nbrs_alt)
next
  show "\<not> distinct chain_pairs" by (rule chain_pairs_repeat)
qed

lemma Alaska_Kamchatka: "(''Alaska'', ''Kamchatka'') \<in> set chain_pairs"
  unfolding chain_pairs_eq by simp

theorem graph_symmetric_witness:
  "''Kamchatka'' \<in> set (nbrs (NEIGHBORS module_init) ''Alaska'') \<and>
   ''Alaska'' \<in> set (nbrs (NEIGHBORS module_init) ''Kamchatka'')"
proof -
  have 1: "''Kamchatka'' \<in> set (nbrs (NEIGHBORS module_init) ''Alaska'')"
    using Alaska_Kamchatka by (simp add: adjacent_iff)
  with graph_symmetric show ?thesis by blast
qed

subsection \<open>Players and the turn pointer\<close>

lemma length_player_names: "length (player_names n) = nat n"
  by (simp add: player_names_def py_range_def)

lemma player_names_nth: "0 \<le> i \<Longrightarrow> i < n \<Longrightarrow> player_names n ! nat i = ''AI_'' @ str_int i"
  by (simp add: player_names_def py_range_def)

lemma deal_total: "n \<noteq> 0 \<Longrightarrow> \<exists>d'. deal n i deck d = Inr d'"
  by (induction deck arbitrary: i d) simp_all

lemma reset_players_ok: "1 \<le> n \<Longrightarrow> players_ok n (snd (reset n deck s))"
proof -
  assume n: "1 \<le> n"
  then obtain d where "deal n 0 deck [] = Inr d"
    using deal_total [of n 0 deck "[]"] by auto
  with n show ?thesis
    by (simp add: reset_def players_ok_def)
qed

lemma reset_CUR: "1 \<le> n \<Longrightarrow> CUR (snd (reset n deck s)) = 0"
  using deal_total [of n 0 deck "[]"] by (auto simp: reset_def)

lemma next_player_step:
  "players_ok n s \<Longrightarrow> next_player s = (Inr (), s\<lparr>CUR := (CUR s + 1) mod n\<rparr>)"
  by (simp add: players_ok_def next_player_def length_player_names)

lemma players_ok_next: "players_ok n s \<Longrightarrow> players_ok n (snd (next_player s))"
  by (simp add: next_player_step) (simp add: players_ok_def)

lemma next_player_iter:
  "players_ok n s \<Longrightarrow> ((\<lambda>s. snd (next_player s)) ^^ k) s = s\<lparr>CUR := (CUR s + int k) mod n\<rparr>"
proof (induction k)
  case 0
  then show ?case by (simp add: players_ok_def)
next
  case (Suc k)
  have ok: "players_ok n (s\<lparr>CUR := (CUR s + int k) mod n\<rparr>)"
    using Suc.prems by (simp add: players_ok_def)
  show ?case
    using Suc next_player_step [OF ok] by (simp add: mod_simps ac_simps)
qed

subsection \<open>Dealing the territories\<close>

lemma map_of_fold_one:
  "map_of (fold (\<lambda>t. AList.update t v) ts d) t = (if t \<in> set ts then Some v else map_of d t)"
  by (induction ts arbitrary: d) (auto simp: update_conv')

lemma map_of_one_each: "map_of (one_each ts) t = (if t \<in> set ts then Some 1 else None)"
  by (simp add: one_each_def map_of_fold_one)

lemma keys_fold_one: "fst ` set (fold (\<lambda>t. AList.update t v) ts d) = fst ` set d \<union> set ts"
  by (induction ts arbitrary: d) (auto simp: dom_update)

lemma keys_one_each: "fst ` set (one_each ts) = set ts"
  by (simp add: one_each_def keys_fold_one)

lemma deal_keys:
  "deal n i deck d = Inr d' \<Longrightarrow> fst ` set d' = fst ` set d \<union> set deck"
  by (induction deck arbitrary: i d) (auto simp: dom_update split: if_splits)

lemma deal_distinct:
  "deal n i deck d = Inr d' \<Longrightarrow> distinct (map fst d) \<Longrightarrow> distinct (map fst d')"
  by (induction deck arbitrary: i d) (auto simp: distinct_update split: if_splits)

lemma deal_other:
  "deal n i deck d = Inr d' \<Longrightarrow> t \<notin> set deck \<Longrightarrow> map_of d' t = map_of d t"
  by (induction deck arbitrary: i d) (auto simp: update_conv' split: if_splits)

lemma deal_nth:
  "deal n i deck d = Inr d' \<Longrightarrow> distinct deck \<Longrightarrow> j < length deck \<Longrightarrow>
     map_of d' (deck ! j) = Some ((i + int j) mod n)"
proof (induction deck arbitrary: i d j)
  case Nil
  then show ?case by simp
next
  case (Cons t ts)
  from Cons.prems(1) have n: "n \<noteq> 0"
    and rest: "deal n (i + 1) ts (AList.update t (i mod n) d) = Inr d'"
    by (auto split: if_splits)
  show ?case
  proof (cases j)
    case 0
    then show ?thesis
      using deal_other [OF rest, of t] Cons.prems(2) by (simp add: update_conv')
  next
    case (Suc k)
    then show ?thesis
      using Cons.IH [OF rest, of k] Cons.prems(2,3) by (simp add: add.assoc)
  qed
qed

lemma count_residue:
  "r < m \<Longrightarrow>
     length (filter (\<lambda>j. j mod m = r) [0..<L]) = L div m + (if r < L mod m then 1 else 0)"
proof (induction L)
  case 0
  then show ?case by simp
next
  case (Suc L)
  show ?case
  proof (cases "Suc (L mod m) = m")
    case True
    then have "Suc L mod m = 0" "Suc L div m = Suc (L div m)"
      by (simp_all add: mod_Suc div_Suc)
    with Suc True show ?thesis by auto
  next
    case False
    then have "Suc L mod m = Suc (L mod m)" "Suc L div m = L div m"
      by (simp_all add: mod_Suc div_Suc)
    with Suc show ?thesis by auto
  qed
qed

lemma count_residue_balanced:
  "r < m \<Longrightarrow> r' < m \<Longrightarrow>
     length (filter (\<lambda>j. j mod m = r) [0..<L]) \<le> Suc (length (filter (\<lambda>j. j mod m = r') [0..<L]))"
  by (simp add: count_residue)

lemma filter_by_index:
  "filter P xs = map ((!) xs) (filter (\<lambda>j. P (xs ! j)) [0..<length xs])"
proof -
  have "filter P (map ((!) xs) [0..<length xs]) =
          map ((!) xs) (filter (\<lambda>j. P (xs ! j)) [0..<length xs])"
    by (simp add: filter_map comp_def)
  then show ?thesis by (simp add: map_nth)
qed

lemma int_mod_residue:
  "0 \<le> p \<Longrightarrow> 0 < n \<Longrightarrow> (int j mod n = p) = (j mod nat n = nat p)"
proof -
  assume a: "0 \<le> p" "0 < n"
  have "int (j mod nat n) = int j mod n"
    using a by (simp add: zmod_int)
  then show ?thesis using a by auto
qed

lemma reset_ok:
  "1 \<le> n \<Longrightarrow>
     \<exists>d. deal n 0 deck [] = Inr d \<and>
         reset n deck s =
           (Inr (), s\<lparr>PLAYERS := player_names n, CUR := 0, LAST := ''Game reset'',
                      OWNER := d, TROOPS := one_each (TERRITORIES s)\<rparr>)"
  using deal_total [of n 0 deck "[]"] by (auto simp: reset_def)

lemma owned_by_count:
  assumes d: "deal n 0 deck [] = Inr (OWNER s')"
    and perm: "mset deck = mset (TERRITORIES s')"
    and dist: "distinct (TERRITORIES s')"
    and n: "0 < n" and p: "0 \<le> p"
  shows "length (owned_by s' p) = length (filter (\<lambda>j. j mod nat n = nat p) [0..<length deck])"
proof -
  let ?P = "\<lambda>t. map_of (OWNER s') t = Some p"
  have dd: "distinct deck"
    using perm dist by (metis mset_eq_imp_distinct_iff)
  have "length (owned_by s' p) = size (filter_mset ?P (mset (TERRITORIES s')))"
    by (simp add: owned_by_def flip: mset_filter)
  also have "\<dots> = length (filter ?P deck)"
    by (simp add: perm [symmetric] flip: mset_filter)
  also have "\<dots> = length (filter (\<lambda>j. ?P (deck ! j)) [0..<length deck])"
    by (subst filter_by_index) simp
  also have "filter (\<lambda>j. ?P (deck ! j)) [0..<length deck] =
             filter (\<lambda>j. j mod nat n = nat p) [0..<length deck]"
    using deal_nth [OF d dd] n p by (intro filter_cong) (auto simp: int_mod_residue)
  finally show ?thesis .
qed

lemma reset_fields:
  assumes n: "1 \<le> n"
  shows "fst (reset n deck s) = Inr ()"
    and "PLAYERS (snd (reset n deck s)) = player_names n"
    and "LAST (snd (reset n deck s)) = ''Game reset''"
    and "TERRITORIES (snd (reset n deck s)) = TERRITORIES s"
    and "NEIGHBORS (snd (reset n deck s)) = NEIGHBORS s"
    and "TROOPS (snd (reset n deck s)) = one_each (TERRITORIES s)"
    and "deal n 0 deck [] = Inr (OWNER (snd (reset n deck s)))"
proof -
  from reset_ok [OF n] obtain d where d: "deal n 0 deck [] = Inr d"
    and r: "reset n deck s =
           (Inr (), s\<lparr>PLAYERS := player_names n, CUR := 0, LAST := ''Game reset'',
                      OWNER := d, TROOPS := one_each (TERRITORIES s)\<rparr>)"
    by blast
  show "fst (reset n deck s) = Inr ()"
    and "PLAYERS (snd (reset n deck s)) = player_names n"
    and "LAST (snd (reset n deck s)) = ''Game reset''"
    and "TERRITORIES (snd (reset n deck s)) = TERRITORIES s"
    and "NEIGHBORS (snd (reset n deck s)) = NEIGHBORS s"
    and "TROOPS (snd (reset n deck s)) = one_each (TERRITORIES s)"
    and "deal n 0 deck [] = Inr (OWNER (snd (reset n deck s)))"
    using d by (simp_all add: r)
qed

lemma permutation_distinct:
  "TERRITORIES s = TERRITORIES module_init \<Longrightarrow> mset deck = mset (TERRITORIES s) \<Longrightarrow>
     distinct deck \<and> set deck = set (TERRITORIES s)"
  using sorted_TERRITORIES_init(2)
  by (metis mset_eq_imp_distinct_iff set_mset_mset)

lemma reset_owner_nth:
  assumes T: "TERRITORIES s = TERRITORIES module_init" and n: "1 \<le> n"
    and perm: "mset deck = mset (TERRITORIES s)" and j: "j < length deck"
  shows "map_of (OWNER (snd (reset n deck s))) (deck ! j) = Some (int j mod n)"
  using deal_nth [OF reset_fields(7) [OF n, of deck s], of j]
    permutation_distinct [OF T perm] j
  by simp

lemma reset_owner_keys:
  assumes T: "TERRITORIES s = TERRITORIES module_init" and n: "1 \<le> n"
    and perm: "mset deck = mset (TERRITORIES s)"
  shows "set (map fst (OWNER (snd (reset n deck s)))) = set (TERRITORIES s)"
    and "distinct (map fst (OWNER (snd (reset n deck s))))"
  using deal_keys [OF reset_fields(7) [OF n, of deck s]]
    deal_distinct [OF reset_fields(7) [OF n, of deck s]] permutation_distinct [OF T perm]
  by simp_all

lemma reset_balanced:
  assumes T: "TERRITORIES s = TERRITORIES module_init" and n: "1 \<le> n"
    and perm: "mset deck = mset (TERRITORIES s)"
    and p: "0 \<le> p" "p < n" and q: "0 \<le> q" "q < n"
  shows "length (owned_by (snd (reset n deck s)) p) \<le>
         Suc (length (owned_by (snd (reset n deck s)) q))"
proof -
  let ?s' = "snd (reset n deck s)"
  have dist: "distinct (TERRITORIES ?s')"
    by (simp add: reset_fields(4) [OF n] T sorted_TERRITORIES_init)
  have perm': "mset deck = mset (TERRITORIES ?s')"
    by (simp add: reset_fields(4) [OF n] perm)
  have cnt: "length (owned_by ?s' r) =
             length (filter (\<lambda>j. j mod nat n = nat r) [0..<length deck])" if "0 \<le> r" for r
    using owned_by_count [OF reset_fields(7) [OF n, of deck s] perm' dist _ that] n by simp
  show ?thesis
    using p q cnt [of p] cnt [of q]
      count_residue_balanced [of "nat p" "nat n" "nat q" "length deck"]
    by simp
qed

text \<open>
  Claim C3. Let \<^verbatim>\<open>reset(n)\<close> be called with \<open>n \<ge> 1\<close> on the board built at import, and
  let \<open>deck\<close> be any permutation of the territories (whatever the shuffle produced).
  Then the call returns normally, and right after it: every territory has an owner in
  \<open>[0, n)\<close> and exactly 1 troop; the turn pointer is 0; the last event is
  \<^verbatim>\<open>Game reset\<close>; the keys of the ownership dictionary are the territories, each once;
  the \<open>j\<close>-th territory of the deck belongs to player \<open>j mod n\<close>; and for any two
  players the numbers of territories they own differ by at most 1.
\<close>

theorem reset_deals_round_robin:
  "TERRITORIES s = TERRITORIES module_init \<Longrightarrow> 1 \<le> n \<Longrightarrow>
   mset deck = mset (TERRITORIES s) \<Longrightarrow>
     (let s' = snd (reset n deck s) in
        fst (reset n deck s) = Inr () \<and>
        (\<forall>t\<in>set (TERRITORIES s'). \<exists>p. map_of (OWNER s') t = Some p \<and> 0 \<le> p \<and> p < n) \<and>
        (\<forall>t\<in>set (TERRITORIES s'). map_of (TROOPS s') t = Some 1) \<and>
        CUR s' = 0 \<and> LAST s' = ''Game reset'' \<and>
        set (map fst (OWNER s')) = set (TERRITORIES s') \<and> distinct (map fst (OWNER s')) \<and>
        (\<forall>j<length deck. map_of (OWNER s') (deck ! j) = Some (int j mod n)) \<and>
        (\<forall>p q. 0 \<le> p \<and> p < n \<and> 0 \<le> q \<and> q < n \<longrightarrow>
               length (owned_by s' p) \<le> Suc (length (owned_by s' q))))"
proof -
  assume T: "TERRITORIES s = TERRITORIES module_init" and n: "1 \<le> n"
    and perm: "mset deck = mset (TERRITORIES s)"
  let ?s' = "snd (reset n deck s)"
  note f = reset_fields [OF n, of deck s]
  have own: "\<exists>p. map_of (OWNER ?s') t = Some p \<and> 0 \<le> p \<and> p < n"
    if "t \<in> set (TERRITORIES s)" for t
  proof -
    from that permutation_distinct [OF T perm] have "t \<in> set deck" by simp
    then obtain j where "j < length deck" "t = deck ! j"
      by (auto simp: in_set_conv_nth)
    with reset_owner_nth [OF T n perm, of j] n show ?thesis by simp
  qed
  have troops: "map_of (TROOPS ?s') t = Some 1" if "t \<in> set (TERRITORIES s)" for t
    using that by (simp add: f(6) map_of_one_each)
  show ?thesis
    unfolding Let_def
    using own troops f(1,3) reset_CUR [OF n, of deck s] reset_owner_keys [OF T n perm]
      reset_owner_nth [OF T n perm] reset_balanced [OF T n perm]
    by (simp add: f(4))
qed

lemma Alaska_territory: "''Alaska'' \<in> set (TERRITORIES module_init)"
  using Alaska_Kamchatka by (force simp: set_TERRITORIES_init)

lemma Kamchatka_territory: "''Kamchatka'' \<in> set (TERRITORIES module_init)"
  using Alaska_Kamchatka by (force simp: set_TERRITORIES_init)

theorem reset_deals_round_robin_witness:
  "TERRITORIES module_init = TERRITORIES module_init \<and> (1::int) \<le> 2 \<and>
   mset (TERRITORIES module_init) = mset (TERRITORIES module_init) \<and>
   fst (reset 2 (TERRITORIES module_init) module_init) = Inr () \<and>
   ''Alaska'' \<in> set (TERRITORIES game2) \<and>
   (\<exists>p. map_of (OWNER game2) ''Alaska'' = Some p \<and> 0 \<le> p \<and> p < 2) \<and>
   map_of (TROOPS game2) ''Alaska'' = Some 1 \<and>
   CUR game2 = 0 \<and> LAST game2 = ''Game reset'' \<and>
   map_of (OWNER game2) (TERRITORIES module_init ! 0) = Some 0 \<and>
   length (owned_by game2 0) \<le> Suc (length (owned_by game2 1)) \<and>
   length (owned_by game2 1) \<le> Suc (length (owned_by game2 0))"
proof -
  have T: "TERRITORIES game2 = TERRITORIES module_init"
    using reset_ok [of 2 "TERRITORIES module_init" module_init]
    by (auto simp: game2_def)
  note main = reset_deals_round_robin [of module_init 2 "TERRITORIES module_init",
      unfolded Let_def game2_def [symmetric] T, simplified]
  have own: "\<exists>p. map_of (OWNER game2) ''Alaska'' = Some p \<and> 0 \<le> p \<and> p < 2"
    using main Alaska_territory by blast
  have tr: "map_of (TROOPS game2) ''Alaska'' = Some 1"
    using main Alaska_territory by blast
  have bal: "length (owned_by game2 0) \<le> Suc (length (owned_by game2 1))"
    "length (owned_by game2 1) \<le> Suc (length (owned_by game2 0))"
    using main by simp_all
  have "0 < length (TERRITORIES module_init)"
    using Alaska_territory by auto
  then have first: "map_of (OWNER game2) (TERRITORIES module_init ! 0) = Some 0"
    using main by auto
  from main have "fst (reset 2 (TERRITORIES module_init) module_init) = Inr ()"
    "CUR game2 = 0" "LAST game2 = ''Game reset''"
    by blast+
  with own tr bal first Alaska_territory T show ?thesis
    by simp
qed

subsection \<open>The attack rule\<close>

lemma getitem_Some: "map_of d k = Some v \<Longrightarrow> getitem d k = Inr v"
  by (simp add: getitem_def)

lemma getitem_None: "map_of d k = None \<Longrightarrow> getitem d k = Inl KeyError"
  by (simp add: getitem_def)

lemma dd_getitem_member: "x \<in> set (nbrs G k) \<Longrightarrow> dd_getitem G k = (nbrs G k, G)"
  by (rule dd_getitem_present) auto

lemma player_names_nonempty: "1 \<le> n \<Longrightarrow> player_names n \<noteq> []"
  using length_player_names [of n] by auto

lemma list_getitem_players:
  "0 \<le> i \<Longrightarrow> i < n \<Longrightarrow> list_getitem (player_names n) i = Inr (''AI_'' @ str_int i)"
  by (simp add: list_getitem_def length_player_names player_names_nth)

lemma capture_ok:
  "players_ok n s \<Longrightarrow>
   capture att tgt a s =
     (Inr True,
      s\<lparr>OWNER := AList.update tgt (CUR s) (OWNER s),
        TROOPS := AList.update tgt (max 1 (a div 2))
                    (AList.update att (a - max 1 (a div 2)) (TROOPS s)),
        LAST := ''AI_'' @ str_int (CUR s) @ '' took '' @ tgt @ '' from AI_'' @
                str_int ((CUR s - 1) mod n)\<rparr>)"
  by (simp add: capture_def Let_def players_ok_def length_player_names list_getitem_players
        player_names_nonempty)

lemma attack_not_adjacent:
  "tgt \<notin> set (nbrs (NEIGHBORS s) att) \<Longrightarrow>
     attack att tgt s =
       (Inr False, s\<lparr>NEIGHBORS := snd (dd_getitem (NEIGHBORS s) att),
                     LAST := ''Invalid adjacency''\<rparr>)"
  by (cases "dd_getitem (NEIGHBORS s) att") (simp add: attack_def nbrs_def Let_def)

lemma attack_adjacent:
  "tgt \<in> set (nbrs (NEIGHBORS s) att) \<Longrightarrow>
     attack att tgt s =
       (case getitem (OWNER s) att of
          Inl e \<Rightarrow> (Inl e, s)
        | Inr oa \<Rightarrow>
            if oa \<noteq> CUR s then (Inr False, s\<lparr>LAST := ''Invalid ownership''\<rparr>)
            else
              (case getitem (OWNER s) tgt of
                 Inl e \<Rightarrow> (Inl e, s)
               | Inr ot \<Rightarrow>
                   if ot = CUR s then (Inr False, s\<lparr>LAST := ''Invalid ownership''\<rparr>)
                   else
                     (case getitem (TROOPS s) att of
                        Inl e \<Rightarrow> (Inl e, s)
                      | Inr ta \<Rightarrow>
                          (case getitem (TROOPS s) tgt of
                             Inl e \<Rightarrow> (Inl e, s)
                           | Inr tt \<Rightarrow>
                               if ta \<le> tt + 1
                               then (Inr False, s\<lparr>LAST := ''Not enough troops''\<rparr>)
                               else capture att tgt ta s))))"
  by (simp add: attack_def dd_getitem_member Let_def split: sum.splits)

lemma attack_success_state:
  assumes "players_ok n s"
    and "tgt \<in> set (nbrs (NEIGHBORS s) att)"
    and "map_of (OWNER s) att = Some (CUR s)"
    and "map_of (OWNER s) tgt = Some p" and "p \<noteq> CUR s"
    and "map_of (TROOPS s) att = Some a" and "map_of (TROOPS s) tgt = Some b"
    and "b + 1 < a"
  shows "attack att tgt s =
     (Inr True,
      s\<lparr>OWNER := AList.update tgt (CUR s) (OWNER s),
        TROOPS := AList.update tgt (max 1 (a div 2))
                    (AList.update att (a - max 1 (a div 2)) (TROOPS s)),
        LAST := ''AI_'' @ str_int (CUR s) @ '' took '' @ tgt @ '' from AI_'' @
                str_int ((CUR s - 1) mod n)\<rparr>)"
  using assms
  by (simp add: attack_adjacent getitem_Some capture_ok)

lemma capture_frame:
  "CUR (snd (capture att tgt a s)) = CUR s \<and>
   PLAYERS (snd (capture att tgt a s)) = PLAYERS s \<and>
   TERRITORIES (snd (capture att tgt a s)) = TERRITORIES s \<and>
   NEIGHBORS (snd (capture att tgt a s)) = NEIGHBORS s \<and>
   (t \<noteq> tgt \<longrightarrow> map_of (OWNER (snd (capture att tgt a s))) t = map_of (OWNER s) t) \<and>
   (t \<noteq> att \<and> t \<noteq> tgt \<longrightarrow>
      map_of (TROOPS (snd (capture att tgt a s))) t = map_of (TROOPS s) t)"
  by (simp add: capture_def Let_def update_conv' split: sum.splits)

lemma attack_frame_lemma:
  "CUR (snd (attack att tgt s)) = CUR s \<and>
   PLAYERS (snd (attack att tgt s)) = PLAYERS s \<and>
   TERRITORIES (snd (attack att tgt s)) = TERRITORIES s \<and>
   (t \<noteq> tgt \<longrightarrow> map_of (OWNER (snd (attack att tgt s))) t = map_of (OWNER s) t) \<and>
   (t \<noteq> att \<and> t \<noteq> tgt \<longrightarrow> map_of (TROOPS (snd (attack att tgt s))) t = map_of (TROOPS s) t)"
proof (cases "tgt \<in> set (nbrs (NEIGHBORS s) att)")
  case False
  then show ?thesis by (simp add: attack_not_adjacent)
next
  case True
  show ?thesis
    using capture_frame [of att tgt _ s t]
    by (simp add: attack_adjacent [OF True] split: sum.splits)
qed

subsection \<open>The example states\<close>

lemma game2_state:
  "\<exists>d. deal 2 0 (TERRITORIES module_init) [] = Inr d \<and>
       game2 = module_init\<lparr>PLAYERS := player_names 2, CUR := 0, LAST := ''Game reset'',
                 OWNER := d, TROOPS := one_each (TERRITORIES module_init)\<rparr>"
  using reset_ok [of 2 "TERRITORIES module_init" module_init] by (auto simp: game2_def)

lemma game2_fields:
  "PLAYERS game2 = player_names 2" "CUR game2 = 0" "LAST game2 = ''Game reset''"
  "TERRITORIES game2 = TERRITORIES module_init" "NEIGHBORS game2 = NEIGHBORS module_init"
  "TROOPS game2 = one_each (TERRITORIES module_init)"
proof -
  from game2_state obtain d where
    g: "game2 = module_init\<lparr>PLAYERS := player_names 2, CUR := 0, LAST := ''Game reset'',
                 OWNER := d, TROOPS := one_each (TERRITORIES module_init)\<rparr>"
    by blast
  show "PLAYERS game2 = player_names 2" "CUR game2 = 0" "LAST game2 = ''Game reset''"
    "TERRITORIES game2 = TERRITORIES module_init" "NEIGHBORS game2 = NEIGHBORS module_init"
    "TROOPS game2 = one_each (TERRITORIES module_init)"
    by (subst g, simp)+
qed

lemma scenario_fields:
  "PLAYERS (scenario k) = player_names 2" "CUR (scenario k) = 0"
  "TERRITORIES (scenario k) = TERRITORIES module_init"
  "NEIGHBORS (scenario k) = NEIGHBORS module_init"
  by (simp_all add: scenario_def game2_fields)

lemma scenario_owner:
  "map_of (OWNER (scenario k)) ''Alaska'' = Some 0"
  "map_of (OWNER (scenario k)) ''Kamchatka'' = Some 1"
  by (simp_all add: scenario_def update_conv')

lemma scenario_troops:
  "map_of (TROOPS (scenario k)) ''Alaska'' = Some k"
  "map_of (TROOPS (scenario k)) ''Kamchatka'' = Some 1"
  using Kamchatka_territory
  by (simp_all add: scenario_def update_conv' game2_fields map_of_one_each)

lemma players_ok_scenario: "players_ok 2 (scenario k)"
  by (simp add: players_ok_def scenario_fields)

lemma scenario_adjacent: "''Kamchatka'' \<in> set (nbrs (NEIGHBORS (scenario k)) ''Alaska'')"
  using Alaska_Kamchatka by (simp add: scenario_fields adjacent_iff)

lemma str_int_0: "str_int 0 = ''0''"
  by code_simp

lemma str_int_1: "str_int 1 = ''1''"
  by code_simp

lemmas str_int_digit = str_int_0 str_int_1

text \<open>
  Claim C1. In a game of \<open>n\<close> players, let \<open>tgt\<close> be in the adjacency list of \<open>att\<close>, let
  \<open>att\<close> belong to the current player and \<open>tgt\<close> to some other player \<open>p\<close>, and let
  \<open>att\<close> hold \<open>a\<close> troops and \<open>tgt\<close> hold \<open>b\<close> troops with \<open>a > b + 1\<close>. Then
  \<^verbatim>\<open>attack(att, tgt)\<close> returns \<^verbatim>\<open>True\<close>; \<open>tgt\<close> now belongs to the current player; with
  \<open>move = max(1, a // 2)\<close>, \<open>att\<close> holds \<open>a - move\<close> troops and \<open>tgt\<close> holds \<open>move\<close>; the
  last event reads \<^verbatim>\<open>AI_<current> took <tgt> from AI_<(current - 1) mod n>\<close>, whoever
  \<open>p\<close> was; and nothing else in the state has changed.
\<close>

theorem attack_success:
  "players_ok n s \<Longrightarrow> tgt \<in> set (nbrs (NEIGHBORS s) att) \<Longrightarrow>
   map_of (OWNER s) att = Some (CUR s) \<Longrightarrow>
   map_of (OWNER s) tgt = Some p \<Longrightarrow> p \<noteq> CUR s \<Longrightarrow>
   map_of (TROOPS s) att = Some a \<Longrightarrow> map_of (TROOPS s) tgt = Some b \<Longrightarrow> b + 1 < a \<Longrightarrow>
     (let move = max 1 (a div 2); s' = snd (attack att tgt s) in
        fst (attack att tgt s) = Inr True \<and>
        map_of (OWNER s') tgt = Some (CUR s) \<and>
        map_of (TROOPS s') att = Some (a - move) \<and>
        map_of (TROOPS s') tgt = Some move \<and>
        LAST s' = ''AI_'' @ str_int (CUR s) @ '' took '' @ tgt @ '' from AI_'' @
                  str_int ((CUR s - 1) mod n) \<and>
        s' = s\<lparr>OWNER := AList.update tgt (CUR s) (OWNER s),
               TROOPS := AList.update tgt move (AList.update att (a - move) (TROOPS s)),
               LAST := LAST s'\<rparr>)"
proof -
  assume a: "players_ok n s" "tgt \<in> set (nbrs (NEIGHBORS s) att)"
    "map_of (OWNER s) att = Some (CUR s)" "map_of (OWNER s) tgt = Some p" "p \<noteq> CUR s"
    "map_of (TROOPS s) att = Some a" "map_of (TROOPS s) tgt = Some b" "b + 1 < a"
  then have ne: "att \<noteq> tgt" by auto
  show ?thesis
    using ne by (simp add: attack_success_state [OF a] Let_def update_conv')
qed

theorem attack_success_witness:
  "players_ok 2 (scenario 10) \<and>
   ''Kamchatka'' \<in> set (nbrs (NEIGHBORS (scenario 10)) ''Alaska'') \<and>
   map_of (OWNER (scenario 10)) ''Alaska'' = Some (CUR (scenario 10)) \<and>
   map_of (OWNER (scenario 10)) ''Kamchatka'' = Some 1 \<and> 1 \<noteq> CUR (scenario 10) \<and>
   map_of (TROOPS (scenario 10)) ''Alaska'' = Some 10 \<and>
   map_of (TROOPS (scenario 10)) ''Kamchatka'' = Some 1 \<and> (1::int) + 1 < 10 \<and>
   fst (attack ''Alaska'' ''Kamchatka'' (scenario 10)) = Inr True \<and>
   map_of (OWNER (snd (attack ''Alaska'' ''Kamchatka'' (scenario 10)))) ''Kamchatka'' = Some 0 \<and>
   map_of (TROOPS (snd (attack ''Alaska'' ''Kamchatka'' (scenario 10)))) ''Alaska'' = Some 5 \<and>
   map_of (TROOPS (snd (attack ''Alaska'' ''Kamchatka'' (scenario 10)))) ''Kamchatka'' = Some 5 \<and>
   LAST (snd (attack ''Alaska'' ''Kamchatka'' (scenario 10))) = ''AI_0 took Kamchatka from AI_1''"
proof -
  have cur: "CUR (scenario 10) = 0" by (rule scenario_fields)
  note main = attack_success [OF players_ok_scenario scenario_adjacent,
      of 10 1 10 1, unfolded Let_def cur]
  show ?thesis
    using main players_ok_scenario [of 10] scenario_adjacent [of 10]
    by (simp add: scenario_owner scenario_troops cur str_int_digit)
qed

text \<open>
  Claim C9. Whatever the state and the arguments, and whether the call succeeds, fails
  or raises, \<^verbatim>\<open>attack(att, tgt)\<close> leaves the turn pointer as it was, and for every
  name \<open>t\<close> other than \<open>att\<close> and \<open>tgt\<close> the lookups \<^verbatim>\<open>owner(t)\<close> and \<^verbatim>\<open>troops(t)\<close>
  give afterwards what they gave before.
\<close>

theorem attack_frame:
  "CUR (snd (attack att tgt s)) = CUR s \<and>
   (t \<noteq> att \<and> t \<noteq> tgt \<longrightarrow>
      fst (owner t (snd (attack att tgt s))) = fst (owner t s) \<and>
      fst (troops t (snd (attack att tgt s))) = fst (troops t s))"
  using attack_frame_lemma [of att tgt s t]
  by (simp add: owner_def troops_def getitem_def)

theorem attack_frame_witness:
  "''Alberta'' \<noteq> ''Alaska'' \<and> ''Alberta'' \<noteq> ''Kamchatka'' \<and>
   fst (attack ''Alaska'' ''Kamchatka'' (scenario 10)) = Inr True \<and>
   CUR (snd (attack ''Alaska'' ''Kamchatka'' (scenario 10))) = CUR (scenario 10) \<and>
   fst (owner ''Alberta'' (snd (attack ''Alaska'' ''Kamchatka'' (scenario 10)))) =
     fst (owner ''Alberta'' (scenario 10)) \<and>
   fst (troops ''Alberta'' (snd (attack ''Alaska'' ''Kamchatka'' (scenario 10)))) =
     fst (troops ''Alberta'' (scenario 10))"
proof -
  have "fst (attack ''Alaska'' ''Kamchatka'' (scenario 10)) = Inr True"
    using attack_success_state [OF players_ok_scenario scenario_adjacent, of 10 1 10 1]
    by (simp add: scenario_owner scenario_troops scenario_fields)
  then show ?thesis
    using attack_frame [of "''Alaska''" "''Kamchatka''" "scenario 10" "''Alberta''"]
    by simp
qed

subsection \<open>The board in a running game\<close>

lemma keys_TERRITORIES_init:
  "fst ` set (NEIGHBORS module_init) = set (TERRITORIES module_init)"
  by (simp add: TERRITORIES_init)

lemma nbrs_init_unknown:
  "x \<notin> set (TERRITORIES module_init) \<Longrightarrow> nbrs (NEIGHBORS module_init) x = []"
proof -
  assume "x \<notin> set (TERRITORIES module_init)"
  then have "map_of (NEIGHBORS module_init) x = None"
    by (simp add: map_of_eq_None_iff keys_TERRITORIES_init)
  then show ?thesis by (simp add: nbrs_alt)
qed

lemma board_ok_nbrs: "board_ok s \<Longrightarrow> nbrs (NEIGHBORS s) x = nbrs (NEIGHBORS module_init) x"
proof -
  assume b: "board_ok s"
  let ?k = "length (NEIGHBORS module_init)"
  let ?E = "drop ?k (NEIGHBORS s)"
  have N: "NEIGHBORS s = NEIGHBORS module_init @ ?E"
    using b append_take_drop_id [of ?k "NEIGHBORS s"] by (simp add: board_ok_def)
  have E: "map_of ?E x = None \<or> map_of ?E x = Some []"
  proof (cases "map_of ?E x")
    case None
    then show ?thesis by simp
  next
    case (Some v)
    then have "(x, v) \<in> set ?E" by (rule map_of_SomeD)
    with b have "v = []" by (auto simp: board_ok_def list_all_iff)
    with Some show ?thesis by simp
  qed
  show ?thesis
    using E by (subst N) (auto simp: nbrs_alt map_add_def split: option.splits)
qed

lemma board_ok_dd_getitem:
  "board_ok s \<Longrightarrow> board_ok (s\<lparr>NEIGHBORS := snd (dd_getitem (NEIGHBORS s) x)\<rparr>)"
proof -
  assume b: "board_ok s"
  let ?k = "length (NEIGHBORS module_init)"
  have len: "?k \<le> length (NEIGHBORS s)"
  proof -
    have "length (take ?k (NEIGHBORS s)) = ?k" using b by (simp add: board_ok_def)
    then show ?thesis by simp
  qed
  show ?thesis
  proof (cases "map_of (NEIGHBORS s) x")
    case None
    with b len show ?thesis by (simp add: board_ok_def dd_getitem_def)
  next
    case (Some v)
    with b show ?thesis by (simp add: board_ok_def dd_getitem_def)
  qed
qed

lemma board_ok_init: "board_ok module_init"
  by (simp add: board_ok_def)

lemma board_ok_fields:
  "NEIGHBORS s' = NEIGHBORS s \<Longrightarrow> TERRITORIES s' = TERRITORIES s \<Longrightarrow> board_ok s \<Longrightarrow>
     board_ok s'"
  by (simp add: board_ok_def)

lemma board_ok_game2: "board_ok game2"
  using board_ok_init by (rule board_ok_fields [rotated 2]) (simp_all add: game2_fields)

lemma board_ok_scenario: "board_ok (scenario k)"
  using board_ok_init by (rule board_ok_fields [rotated 2]) (simp_all add: scenario_fields)

lemma dicts_ok_game2: "dicts_ok game2"
proof -
  from game2_state obtain d where d: "deal 2 0 (TERRITORIES module_init) [] = Inr d"
    and g: "game2 = module_init\<lparr>PLAYERS := player_names 2, CUR := 0, LAST := ''Game reset'',
                 OWNER := d, TROOPS := one_each (TERRITORIES module_init)\<rparr>"
    by blast
  show ?thesis
    using deal_keys [OF d] by (subst g)+ (simp add: dicts_ok_def keys_one_each)
qed

text \<open>
  Claim C10. Let the board be the one built at import and let the two dictionaries
  have no keys but territories. For every name \<open>att\<close> that is not a territory and
  every \<open>tgt\<close>, \<^verbatim>\<open>attack(att, tgt)\<close> raises nothing: the adjacency lookup gives the empty
  list, the call returns \<^verbatim>\<open>False\<close> with last event \<^verbatim>\<open>Invalid adjacency\<close>, and the
  ownership and troop dictionaries are untouched (the adjacency dictionary may have
  gained the key \<open>att\<close> with an empty list). In contrast \<^verbatim>\<open>owner(att)\<close>,
  \<^verbatim>\<open>troops(att)\<close> and \<^verbatim>\<open>is_enemy(att)\<close> raise \<^verbatim>\<open>KeyError\<close>.
\<close>

theorem attack_unknown_territory:
  "board_ok s \<Longrightarrow> set (map fst (OWNER s)) \<subseteq> set (TERRITORIES s) \<Longrightarrow>
   set (map fst (TROOPS s)) \<subseteq> set (TERRITORIES s) \<Longrightarrow> att \<notin> set (TERRITORIES s) \<Longrightarrow>
     nbrs (NEIGHBORS s) att = [] \<and>
     attack att tgt s =
       (Inr False, s\<lparr>NEIGHBORS := snd (dd_getitem (NEIGHBORS s) att),
                     LAST := ''Invalid adjacency''\<rparr>) \<and>
     OWNER (snd (attack att tgt s)) = OWNER s \<and>
     TROOPS (snd (attack att tgt s)) = TROOPS s \<and>
     fst (owner att s) = Inl KeyError \<and>
     fst (troops att s) = Inl KeyError \<and>
     fst (is_enemy att s) = Inl KeyError"
proof -
  assume b: "board_ok s" and o: "set (map fst (OWNER s)) \<subseteq> set (TERRITORIES s)"
    and t: "set (map fst (TROOPS s)) \<subseteq> set (TERRITORIES s)"
    and att: "att \<notin> set (TERRITORIES s)"
  have T: "TERRITORIES s = TERRITORIES module_init"
    using b by (simp add: board_ok_def)
  have nb: "nbrs (NEIGHBORS s) att = []"
    using att by (simp add: board_ok_nbrs [OF b] nbrs_init_unknown T)
  have mo: "map_of (OWNER s) att = None"
    using o att by (auto simp: map_of_eq_None_iff)
  have mt: "map_of (TROOPS s) att = None"
    using t att by (auto simp: map_of_eq_None_iff)
  show ?thesis
    using nb mo mt
    by (simp add: attack_not_adjacent owner_def troops_def is_enemy_def getitem_None)
qed

lemma names_of_pairs: "fst ` set ps \<union> snd ` set ps = set (map fst ps @ map snd ps)"
  by auto

lemma Atlantis_unknown: "''Atlantis'' \<notin> set (TERRITORIES module_init)"
  unfolding set_TERRITORIES_init names_of_pairs chain_pairs_eq by code_simp

theorem attack_unknown_territory_witness:
  "board_ok game2 \<and> set (map fst (OWNER game2)) \<subseteq> set (TERRITORIES game2) \<and>
   set (map fst (TROOPS game2)) \<subseteq> set (TERRITORIES game2) \<and>
   ''Atlantis'' \<notin> set (TERRITORIES game2) \<and>
   fst (attack ''Atlantis'' ''Alaska'' game2) = Inr False \<and>
   LAST (snd (attack ''Atlantis'' ''Alaska'' game2)) = ''Invalid adjacency'' \<and>
   OWNER (snd (attack ''Atlantis'' ''Alaska'' game2)) = OWNER game2 \<and>
   TROOPS (snd (attack ''Atlantis'' ''Alaska'' game2)) = TROOPS game2 \<and>
   fst (owner ''Atlantis'' game2) = Inl KeyError \<and>
   fst (troops ''Atlantis'' game2) = Inl KeyError \<and>
   fst (is_enemy ''Atlantis'' game2) = Inl KeyError"
proof -
  have d: "set (map fst (OWNER game2)) \<subseteq> set (TERRITORIES game2)"
    "set (map fst (TROOPS game2)) \<subseteq> set (TERRITORIES game2)"
    using dicts_ok_game2 by (simp_all add: dicts_ok_def)
  have a: "''Atlantis'' \<notin> set (TERRITORIES game2)"
    using Atlantis_unknown by (simp add: game2_fields)
  show ?thesis
    using attack_unknown_territory [OF board_ok_game2 d a, of "''Alaska''"]
      board_ok_game2 d a
    by simp
qed

subsection \<open>The order of the checks\<close>

lemma adjacent_territories:
  "b \<in> set (nbrs (NEIGHBORS module_init) a) \<Longrightarrow>
     a \<in> set (TERRITORIES module_init) \<and> b \<in> set (TERRITORIES module_init)"
  by (force simp: adjacent_iff set_TERRITORIES_init)

lemma dicts_ok_lookup:
  "dicts_ok s \<Longrightarrow> t \<in> set (TERRITORIES s) \<Longrightarrow>
     (\<exists>p. map_of (OWNER s) t = Some p) \<and> (\<exists>k. map_of (TROOPS s) t = Some k)"
proof -
  assume d: "dicts_ok s" and t: "t \<in> set (TERRITORIES s)"
  have "map_of (OWNER s) t \<noteq> None" "map_of (TROOPS s) t \<noteq> None"
    using d t by (simp_all add: dicts_ok_def map_of_eq_None_iff)
  then show ?thesis by auto
qed

lemma Alaska_Brazil: "''Brazil'' \<notin> set (nbrs (NEIGHBORS module_init) ''Alaska'')"
  unfolding adjacent_iff chain_pairs_eq by code_simp

text \<open>
  Claim C2, as amended. \<^verbatim>\<open>attack(att, tgt)\<close> checks in this order and stops at the first
  failure. (1) If \<open>tgt\<close> is not in the adjacency list of \<open>att\<close>, it returns \<^verbatim>\<open>False\<close>
  with last event \<^verbatim>\<open>Invalid adjacency\<close>. (2) Otherwise, if \<open>att\<close> is not the current
  player's or \<open>tgt\<close> is, it returns \<^verbatim>\<open>False\<close> with last event \<^verbatim>\<open>Invalid ownership\<close>.
  (3) Otherwise, if \<open>troops(att) \<le> troops(tgt) + 1\<close>, it returns \<^verbatim>\<open>False\<close> with last
  event \<^verbatim>\<open>Not enough troops\<close>. After a failure the state is the old one with only the
  last event replaced (after (1) the adjacency dictionary may also hold the key \<open>att\<close>
  with an empty list, which changes no lookup). With checks (1) and (2) passed and
  \<open>troops(att) = troops(tgt) + 2\<close>, the call returns \<^verbatim>\<open>True\<close>. In a game on the built
  board two adjacent names always have owners and troop counts, so one of the cases
  applies. The messages are capitalised, which is where the claim as written fails.
\<close>

theorem attack_validation_order:
  "(tgt \<notin> set (nbrs (NEIGHBORS s) att) \<longrightarrow>
      attack att tgt s =
        (Inr False, s\<lparr>NEIGHBORS := snd (dd_getitem (NEIGHBORS s) att),
                      LAST := ''Invalid adjacency''\<rparr>) \<and>
      (\<forall>x. nbrs (NEIGHBORS (snd (attack att tgt s))) x = nbrs (NEIGHBORS s) x)) \<and>
   (tgt \<in> set (nbrs (NEIGHBORS s) att) \<and> map_of (OWNER s) att = Some oa \<and>
    (oa \<noteq> CUR s \<or> map_of (OWNER s) tgt = Some (CUR s)) \<longrightarrow>
      attack att tgt s = (Inr False, s\<lparr>LAST := ''Invalid ownership''\<rparr>)) \<and>
   (tgt \<in> set (nbrs (NEIGHBORS s) att) \<and> map_of (OWNER s) att = Some (CUR s) \<and>
    map_of (OWNER s) tgt = Some p \<and> p \<noteq> CUR s \<and>
    map_of (TROOPS s) att = Some a \<and> map_of (TROOPS s) tgt = Some b \<longrightarrow>
      (a \<le> b + 1 \<longrightarrow> attack att tgt s = (Inr False, s\<lparr>LAST := ''Not enough troops''\<rparr>)) \<and>
      (a = b + 2 \<and> players_ok n s \<longrightarrow> fst (attack att tgt s) = Inr True)) \<and>
   (board_ok s \<and> dicts_ok s \<and> tgt \<in> set (nbrs (NEIGHBORS s) att) \<longrightarrow>
      (\<exists>oa' p' a' b'. map_of (OWNER s) att = Some oa' \<and> map_of (OWNER s) tgt = Some p' \<and>
         map_of (TROOPS s) att = Some a' \<and> map_of (TROOPS s) tgt = Some b'))"
proof -
  have c1: "attack att tgt s =
       (Inr False, s\<lparr>NEIGHBORS := snd (dd_getitem (NEIGHBORS s) att),
                     LAST := ''Invalid adjacency''\<rparr>) \<and>
     (\<forall>x. nbrs (NEIGHBORS (snd (attack att tgt s))) x = nbrs (NEIGHBORS s) x)"
    if "tgt \<notin> set (nbrs (NEIGHBORS s) att)"
    using that by (simp add: attack_not_adjacent nbrs_dd_getitem)
  have c2: "attack att tgt s = (Inr False, s\<lparr>LAST := ''Invalid ownership''\<rparr>)"
    if "tgt \<in> set (nbrs (NEIGHBORS s) att)" "map_of (OWNER s) att = Some oa"
      "oa \<noteq> CUR s \<or> map_of (OWNER s) tgt = Some (CUR s)"
    using that by (auto simp: attack_adjacent getitem_Some)
  have c3: "attack att tgt s = (Inr False, s\<lparr>LAST := ''Not enough troops''\<rparr>)"
    if "tgt \<in> set (nbrs (NEIGHBORS s) att)" "map_of (OWNER s) att = Some (CUR s)"
      "map_of (OWNER s) tgt = Some p" "p \<noteq> CUR s"
      "map_of (TROOPS s) att = Some a" "map_of (TROOPS s) tgt = Some b" "a \<le> b + 1"
    using that by (simp add: attack_adjacent getitem_Some)
  have c4: "fst (attack att tgt s) = Inr True"
    if "tgt \<in> set (nbrs (NEIGHBORS s) att)" "map_of (OWNER s) att = Some (CUR s)"
      "map_of (OWNER s) tgt = Some p" "p \<noteq> CUR s"
      "map_of (TROOPS s) att = Some a" "map_of (TROOPS s) tgt = Some b" "a = b + 2"
      "players_ok n s"
    using that attack_success_state [of n s tgt att p a b] by simp
  have c5: "\<exists>oa' p' a' b'. map_of (OWNER s) att = Some oa' \<and> map_of (OWNER s) tgt = Some p' \<and>
         map_of (TROOPS s) att = Some a' \<and> map_of (TROOPS s) tgt = Some b'"
    if h: "board_ok s" "dicts_ok s" "tgt \<in> set (nbrs (NEIGHBORS s) att)"
  proof -
    have "att \<in> set (TERRITORIES s) \<and> tgt \<in> set (TERRITORIES s)"
      using h adjacent_territories [of tgt att]
      by (simp add: board_ok_nbrs) (simp add: board_ok_def)
    then show ?thesis
      using h dicts_ok_lookup [of s att] dicts_ok_lookup [of s tgt] by auto
  qed
  show ?thesis
    using c1 c2 c3 c4 c5 by blast
qed

lemma dicts_ok_scenario: "dicts_ok (scenario k)"
proof -
  have "''Alaska'' \<in> fst ` set (OWNER game2)" "''Kamchatka'' \<in> fst ` set (OWNER game2)"
    "''Alaska'' \<in> fst ` set (TROOPS game2)"
    using dicts_ok_game2 Alaska_territory Kamchatka_territory
    by (simp_all add: dicts_ok_def game2_fields(4))
  then show ?thesis
    using dicts_ok_game2
    by (auto simp: dicts_ok_def scenario_def dom_update)
qed

lemma scenario_adjacent_back: "''Alaska'' \<in> set (nbrs (NEIGHBORS (scenario k)) ''Kamchatka'')"
  using Alaska_Kamchatka by (simp add: scenario_fields adjacent_iff)

lemma scenario_not_adjacent: "''Brazil'' \<notin> set (nbrs (NEIGHBORS (scenario k)) ''Alaska'')"
  using Alaska_Brazil by (simp add: scenario_fields)

theorem attack_validation_order_witness:
  "''Brazil'' \<notin> set (nbrs (NEIGHBORS (scenario 10)) ''Alaska'') \<and>
   attack ''Alaska'' ''Brazil'' (scenario 10) =
     (Inr False, (scenario 10)\<lparr>NEIGHBORS := snd (dd_getitem (NEIGHBORS (scenario 10)) ''Alaska''),
                               LAST := ''Invalid adjacency''\<rparr>) \<and>
   ''Alaska'' \<in> set (nbrs (NEIGHBORS (scenario 10)) ''Kamchatka'') \<and>
   map_of (OWNER (scenario 10)) ''Kamchatka'' = Some 1 \<and> 1 \<noteq> CUR (scenario 10) \<and>
   attack ''Kamchatka'' ''Alaska'' (scenario 10) =
     (Inr False, (scenario 10)\<lparr>LAST := ''Invalid ownership''\<rparr>) \<and>
   ''Kamchatka'' \<in> set (nbrs (NEIGHBORS (scenario 2)) ''Alaska'') \<and>
   map_of (OWNER (scenario 2)) ''Alaska'' = Some (CUR (scenario 2)) \<and>
   map_of (TROOPS (scenario 2)) ''Alaska'' = Some 2 \<and>
   map_of (TROOPS (scenario 2)) ''Kamchatka'' = Some 1 \<and> (2::int) \<le> 1 + 1 \<and>
   attack ''Alaska'' ''Kamchatka'' (scenario 2) =
     (Inr False, (scenario 2)\<lparr>LAST := ''Not enough troops''\<rparr>) \<and>
   map_of (TROOPS (scenario 3)) ''Alaska'' = Some 3 \<and> (3::int) = 1 + 2 \<and>
   players_ok 2 (scenario 3) \<and>
   fst (attack ''Alaska'' ''Kamchatka'' (scenario 3)) = Inr True \<and>
   board_ok (scenario 10) \<and> dicts_ok (scenario 10) \<and>
   (\<exists>oa p a b. map_of (OWNER (scenario 10)) ''Kamchatka'' = Some oa \<and>
      map_of (OWNER (scenario 10)) ''Alaska'' = Some p \<and>
      map_of (TROOPS (scenario 10)) ''Kamchatka'' = Some a \<and>
      map_of (TROOPS (scenario 10)) ''Alaska'' = Some b)"
proof -
  have cur: "CUR (scenario k) = 0" for k by (rule scenario_fields)
  have 1: "attack ''Alaska'' ''Brazil'' (scenario 10) =
     (Inr False, (scenario 10)\<lparr>NEIGHBORS := snd (dd_getitem (NEIGHBORS (scenario 10)) ''Alaska''),
                               LAST := ''Invalid adjacency''\<rparr>)"
    using attack_validation_order [of "''Brazil''" "scenario 10" "''Alaska''"]
      scenario_not_adjacent [of 10] by blast
  have 2: "attack ''Kamchatka'' ''Alaska'' (scenario 10) =
     (Inr False, (scenario 10)\<lparr>LAST := ''Invalid ownership''\<rparr>)"
    using attack_validation_order [of "''Alaska''" "scenario 10" "''Kamchatka''" 1]
      scenario_adjacent_back [of 10] scenario_owner(2) [of 10] cur [of 10] by simp
  have 3: "attack ''Alaska'' ''Kamchatka'' (scenario 2) =
     (Inr False, (scenario 2)\<lparr>LAST := ''Not enough troops''\<rparr>)"
    using attack_validation_order [of "''Kamchatka''" "scenario 2" "''Alaska''" _ 1 2 1]
      scenario_adjacent [of 2] scenario_owner [of 2] scenario_troops [of 2] cur [of 2]
    by simp
  have 4: "fst (attack ''Alaska'' ''Kamchatka'' (scenario 3)) = Inr True"
    using attack_validation_order [of "''Kamchatka''" "scenario 3" "''Alaska''" _ 1 3 1 2]
      scenario_adjacent [of 3] scenario_owner [of 3] scenario_troops [of 3] cur [of 3]
      players_ok_scenario [of 3]
    by simp
  have 5: "\<exists>oa p a b. map_of (OWNER (scenario 10)) ''Kamchatka'' = Some oa \<and>
      map_of (OWNER (scenario 10)) ''Alaska'' = Some p \<and>
      map_of (TROOPS (scenario 10)) ''Kamchatka'' = Some a \<and>
      map_of (TROOPS (scenario 10)) ''Alaska'' = Some b"
    using attack_validation_order [of "''Alaska''" "scenario 10" "''Kamchatka''"]
      board_ok_scenario [of 10] dicts_ok_scenario [of 10] scenario_adjacent_back [of 10]
    by blast
  show ?thesis
    using 1 2 3 4 5 scenario_not_adjacent [of 10] scenario_adjacent_back [of 10]
      scenario_adjacent [of 2] players_ok_scenario [of 3]
      board_ok_scenario [of 10] dicts_ok_scenario [of 10]
    by (simp add: scenario_owner scenario_troops cur)
qed

text \<open>
  The claim as written names the first message \<^verbatim>\<open>invalid adjacency\<close>; the code writes
  \<^verbatim>\<open>Invalid adjacency\<close>. An attack from a name that is no territory shows it, and shows
  the key the lookup leaves in the adjacency dictionary.
\<close>

theorem attack_message_counterexample:
  "fst (attack ''Atlantis'' ''Alaska'' game2) = Inr False \<and>
   LAST (snd (attack ''Atlantis'' ''Alaska'' game2)) = ''Invalid adjacency'' \<and>
   LAST (snd (attack ''Atlantis'' ''Alaska'' game2)) \<noteq> ''invalid adjacency'' \<and>
   NEIGHBORS (snd (attack ''Atlantis'' ''Alaska'' game2)) =
     NEIGHBORS game2 @ [(''Atlantis'', [])] \<and>
   NEIGHBORS (snd (attack ''Atlantis'' ''Alaska'' game2)) \<noteq> NEIGHBORS game2"
proof -
  have none: "map_of (NEIGHBORS game2) ''Atlantis'' = None"
    using Atlantis_unknown
    by (simp add: game2_fields map_of_eq_None_iff keys_TERRITORIES_init)
  then have "''Alaska'' \<notin> set (nbrs (NEIGHBORS game2) ''Atlantis'')"
    by (simp add: nbrs_alt)
  then show ?thesis
    using none by (simp add: attack_not_adjacent dd_getitem_def)
qed

subsection \<open>The invariant of a running game\<close>

lemma owner_in_iff: "owner_in n s t \<longleftrightarrow> (\<exists>p. map_of (OWNER s) t = Some p \<and> 0 \<le> p \<and> p < n)"
  by (cases "map_of (OWNER s) t") (simp_all add: owner_in_def)

lemma troops_ge1_iff: "troops_ge1 s t \<longleftrightarrow> (\<exists>k. map_of (TROOPS s) t = Some k \<and> 1 \<le> k)"
  by (cases "map_of (TROOPS s) t") (simp_all add: troops_ge1_def)

lemma game_inv_iff:
  "game_inv n s \<longleftrightarrow>
     (\<forall>t\<in>set (TERRITORIES s).
        (\<exists>p. map_of (OWNER s) t = Some p \<and> 0 \<le> p \<and> p < n) \<and>
        (\<exists>k. map_of (TROOPS s) t = Some k \<and> 1 \<le> k))"
  by (simp add: game_inv_def list_all_iff owner_in_iff troops_ge1_iff)

lemma getitem_Inr_iff: "getitem d k = Inr v \<longleftrightarrow> map_of d k = Some v"
  by (simp add: getitem_def split: option.splits)

lemma key_of_lookup: "map_of d k = Some v \<Longrightarrow> k \<in> fst ` set d"
  by (force dest: map_of_SomeD)

lemma capture_inv:
  assumes p: "players_ok n s" and d: "dicts_ok s" and g: "game_inv n s"
    and ot: "map_of (OWNER s) tgt = Some ot"
    and ta: "map_of (TROOPS s) att = Some ta" and tt: "map_of (TROOPS s) tgt = Some tt"
    and m: "tt + 1 < ta"
  shows "players_ok n (snd (capture att tgt ta s)) \<and> dicts_ok (snd (capture att tgt ta s)) \<and>
         game_inv n (snd (capture att tgt ta s))"
proof -
  let ?move = "max 1 (ta div 2)"
  have keys: "tgt \<in> fst ` set (OWNER s)" "att \<in> fst ` set (TROOPS s)"
    "tgt \<in> fst ` set (TROOPS s)"
    using ot ta tt by (auto intro: key_of_lookup)
  then have "tgt \<in> set (TERRITORIES s)"
    using d by (simp add: dicts_ok_def)
  with g tt have "1 \<le> tt" by (auto simp: game_inv_iff)
  with m have big: "1 \<le> ?move" "1 \<le> ta - ?move" by auto
  have cur: "0 \<le> CUR s" "CUR s < n" using p by (simp_all add: players_ok_def)
  have P: "players_ok n (snd (capture att tgt ta s))"
    using p by (simp add: capture_ok [OF p]) (simp add: players_ok_def)
  have D: "dicts_ok (snd (capture att tgt ta s))"
    using d keys by (auto simp: capture_ok [OF p] dicts_ok_def dom_update)
  have G: "game_inv n (snd (capture att tgt ta s))"
    using g big cur by (auto simp: capture_ok [OF p] game_inv_iff update_conv')
  from P D G show ?thesis by simp
qed

lemma attack_inv:
  assumes p: "players_ok n s" and d: "dicts_ok s" and g: "game_inv n s"
  shows "players_ok n (snd (attack att tgt s)) \<and> dicts_ok (snd (attack att tgt s)) \<and>
         game_inv n (snd (attack att tgt s))"
proof (cases "tgt \<in> set (nbrs (NEIGHBORS s) att)")
  case False
  with p d g show ?thesis
    by (simp add: attack_not_adjacent players_ok_def dicts_ok_def game_inv_iff)
next
  case True
  have same: "players_ok n (s\<lparr>LAST := m\<rparr>) \<and> dicts_ok (s\<lparr>LAST := m\<rparr>) \<and> game_inv n (s\<lparr>LAST := m\<rparr>)"
    for m
    using p d g by (simp add: players_ok_def dicts_ok_def game_inv_iff)
  show ?thesis
    using p d g same capture_inv [OF p d g, of tgt _ att]
    by (auto simp: attack_adjacent [OF True] getitem_Inr_iff split: sum.splits)
qed

lemma exec_inv:
  assumes p: "players_ok n s" and d: "dicts_ok s" and g: "game_inv n s"
  shows "players_ok n (exec c s) \<and> dicts_ok (exec c s) \<and> game_inv n (exec c s)"
proof (cases c)
  case (Attack att tgt)
  then show ?thesis using attack_inv [OF p d g] by simp
next
  case Next_player
  then show ?thesis
    using players_ok_next [OF p] d g
    by (simp add: next_player_step [OF p] dicts_ok_def game_inv_iff)
next
  case (Get_neighbors t)
  then show ?thesis
    using p d g
    by (simp add: get_neighbors_def players_ok_def dicts_ok_def game_inv_iff split: prod.splits)
next
  case Game_over
  then show ?thesis
    using p d g by (simp add: game_over_def split: sum.splits)
next
  case Get_map
  then show ?thesis
    using p d g by (simp add: get_map_def split: sum.splits)
next
  case (Is_enemy t)
  then show ?thesis
    using p d g by (simp add: is_enemy_def split: sum.splits)
qed (use p d g in \<open>simp_all add: my_territories_def troops_def owner_def current_player_def
       last_event_def\<close>)

lemma run_inv:
  "players_ok n s \<Longrightarrow> dicts_ok s \<Longrightarrow> game_inv n s \<Longrightarrow>
     players_ok n (run cs s) \<and> dicts_ok (run cs s) \<and> game_inv n (run cs s)"
proof (induction cs arbitrary: s)
  case Nil
  then show ?case by (simp add: run_def)
next
  case (Cons c cs)
  from exec_inv [OF Cons.prems, of c] Cons.IH [of "exec c s"] show ?case
    by (simp add: run_def)
qed

lemma reset_inv:
  assumes T: "TERRITORIES s = TERRITORIES module_init" and n: "1 \<le> n"
    and perm: "mset deck = mset (TERRITORIES s)"
  shows "players_ok n (snd (reset n deck s)) \<and> dicts_ok (snd (reset n deck s)) \<and>
         game_inv n (snd (reset n deck s))"
proof -
  let ?s' = "snd (reset n deck s)"
  note f = reset_fields [OF n, of deck s]
  have D: "dicts_ok ?s'"
    using reset_owner_keys(1) [OF T n perm]
    by (simp add: dicts_ok_def f(4,6) keys_one_each)
  have G: "game_inv n ?s'"
    unfolding game_inv_iff
  proof
    fix t
    assume "t \<in> set (TERRITORIES ?s')"
    then have t: "t \<in> set deck"
      using permutation_distinct [OF T perm] by (simp add: f(4))
    then obtain j where "j < length deck" "t = deck ! j"
      by (auto simp: in_set_conv_nth)
    with reset_owner_nth [OF T n perm, of j] n
    have "\<exists>p. map_of (OWNER ?s') t = Some p \<and> 0 \<le> p \<and> p < n" by simp
    moreover have "map_of (TROOPS ?s') t = Some 1"
      using t permutation_distinct [OF T perm] by (simp add: f(6) map_of_one_each)
    ultimately show "(\<exists>p. map_of (OWNER ?s') t = Some p \<and> 0 \<le> p \<and> p < n) \<and>
        (\<exists>k. map_of (TROOPS ?s') t = Some k \<and> 1 \<le> k)"
      by simp
  qed
  from reset_players_ok [OF n] D G show ?thesis by simp
qed

lemma game_inv_scenario: "1 \<le> k \<Longrightarrow> game_inv 2 (scenario k)"
proof -
  assume k: "1 \<le> k"
  have g: "game_inv 2 game2"
    unfolding game2_def by (rule reset_inv [THEN conjunct2, THEN conjunct2]) simp_all
  show ?thesis
    unfolding game_inv_iff
  proof
    fix t
    assume "t \<in> set (TERRITORIES (scenario k))"
    then have "t \<in> set (TERRITORIES game2)"
      by (simp add: scenario_fields game2_fields)
    with g have "(\<exists>p. map_of (OWNER game2) t = Some p \<and> 0 \<le> p \<and> p < 2) \<and>
        (\<exists>j. map_of (TROOPS game2) t = Some j \<and> 1 \<le> j)"
      by (simp add: game_inv_iff)
    with k show "(\<exists>p. map_of (OWNER (scenario k)) t = Some p \<and> 0 \<le> p \<and> p < 2) \<and>
        (\<exists>j. map_of (TROOPS (scenario k)) t = Some j \<and> 1 \<le> j)"
      by (simp add: scenario_def update_conv')
  qed
qed

text \<open>
  Claim C4. After \<^verbatim>\<open>reset(n)\<close> with \<open>n \<ge> 1\<close> on the built board, whatever the shuffle
  produced, every finite sequence of calls of \<^verbatim>\<open>attack\<close>, \<^verbatim>\<open>next_player\<close> and the queries
  (with any arguments, and going on after a call that raised) leaves a state in which
  every territory has an owner in \<open>[0, n)\<close> and at least 1 troop. The same holds from
  any state of an \<open>n\<close>-player game that satisfies this, also one in which troops were
  placed by hand so that an attack can succeed.
\<close>

theorem invariant_preserved:
  "(TERRITORIES s = TERRITORIES module_init \<and> 1 \<le> n \<and> mset deck = mset (TERRITORIES s) \<longrightarrow>
      game_inv n (run cs (snd (reset n deck s)))) \<and>
   (players_ok n s \<and> dicts_ok s \<and> game_inv n s \<longrightarrow> game_inv n (run cs s))"
  using reset_inv [of s n deck] run_inv [of n "snd (reset n deck s)" cs] run_inv [of n s cs]
  by blast

theorem invariant_preserved_witness:
  "TERRITORIES module_init = TERRITORIES module_init \<and> (1::int) \<le> 2 \<and>
   mset (TERRITORIES module_init) = mset (TERRITORIES module_init) \<and>
   game_inv 2 (run [Attack ''Alaska'' ''Kamchatka'', Next_player, Get_neighbors ''Atlantis'',
                    Owner ''Atlantis'', Attack ''Kamchatka'' ''Alaska'', Get_map, Game_over]
                 (snd (reset 2 (TERRITORIES module_init) module_init))) \<and>
   players_ok 2 (scenario 10) \<and> dicts_ok (scenario 10) \<and> game_inv 2 (scenario 10) \<and>
   fst (attack ''Alaska'' ''Kamchatka'' (scenario 10)) = Inr True \<and>
   game_inv 2 (run [Attack ''Alaska'' ''Kamchatka'', Next_player] (scenario 10))"
proof -
  have g: "game_inv 2 (scenario 10)" by (rule game_inv_scenario) simp
  have a: "fst (attack ''Alaska'' ''Kamchatka'' (scenario 10)) = Inr True"
    using attack_success_state [OF players_ok_scenario scenario_adjacent, of 10 1 10 1]
    by (simp add: scenario_owner scenario_troops scenario_fields)
  have 1: "game_inv 2 (run [Attack ''Alaska'' ''Kamchatka'', Next_player, Get_neighbors ''Atlantis'',
                    Owner ''Atlantis'', Attack ''Kamchatka'' ''Alaska'', Get_map, Game_over]
                 (snd (reset 2 (TERRITORIES module_init) module_init)))"
    using invariant_preserved [of module_init 2 "TERRITORIES module_init"] by simp
  have 2: "game_inv 2 (run [Attack ''Alaska'' ''Kamchatka'', Next_player] (scenario 10))"
    using invariant_preserved [of "scenario 10" 2] players_ok_scenario [of 10]
      dicts_ok_scenario [of 10] g by blast
  from 1 2 g a players_ok_scenario [of 10] dicts_ok_scenario [of 10] show ?thesis
    by simp
qed

subsection \<open>The states of a running game\<close>

lemma attack_NEIGHBORS:
  "NEIGHBORS (snd (attack att tgt s)) = NEIGHBORS s \<or>
   NEIGHBORS (snd (attack att tgt s)) = snd (dd_getitem (NEIGHBORS s) att)"
proof (cases "tgt \<in> set (nbrs (NEIGHBORS s) att)")
  case False
  then show ?thesis by (simp add: attack_not_adjacent)
next
  case True
  show ?thesis
    using capture_frame [of att tgt _ s]
    by (simp add: attack_adjacent [OF True] split: sum.splits)
qed

lemma board_ok_exec: "board_ok s \<Longrightarrow> board_ok (exec c s)"
proof (cases c)
  case (Attack att tgt)
  assume b: "board_ok s"
  have T: "TERRITORIES (snd (attack att tgt s)) = TERRITORIES s"
    using attack_frame_lemma [of att tgt s] by simp
  from attack_NEIGHBORS [of att tgt s] show ?thesis
  proof
    assume "NEIGHBORS (snd (attack att tgt s)) = NEIGHBORS s"
    with T b show ?thesis unfolding Attack by (simp add: board_ok_def)
  next
    assume N: "NEIGHBORS (snd (attack att tgt s)) = snd (dd_getitem (NEIGHBORS s) att)"
    from board_ok_dd_getitem [OF b, of att] T N show ?thesis
      unfolding Attack by (simp add: board_ok_def)
  qed
next
  case (Get_neighbors t)
  assume b: "board_ok s"
  from board_ok_dd_getitem [OF b, of t] show ?thesis
    unfolding Get_neighbors by (auto simp: get_neighbors_def split: prod.splits)
qed (simp_all add: board_ok_def next_player_def my_territories_def is_enemy_def troops_def
       owner_def game_over_def current_player_def get_map_def last_event_def
       split: sum.splits)

lemma players_ok_exec: "players_ok n s \<Longrightarrow> players_ok n (exec c s)"
proof (cases c)
  case (Attack att tgt)
  assume "players_ok n s"
  then show ?thesis
    using attack_frame_lemma [of att tgt s] unfolding Attack by (simp add: players_ok_def)
next
  case Next_player
  assume "players_ok n s"
  then show ?thesis unfolding Next_player by (simp add: players_ok_next)
qed (simp_all add: players_ok_def get_neighbors_def my_territories_def is_enemy_def troops_def
       owner_def game_over_def current_player_def get_map_def last_event_def
       split: sum.splits prod.splits)

lemma players_ok_run: "players_ok n s \<Longrightarrow> players_ok n (run cs s)"
  unfolding run_def by (induction cs arbitrary: s) (simp_all add: players_ok_exec)

lemma board_ok_run: "board_ok s \<Longrightarrow> board_ok (run cs s)"
  unfolding run_def by (induction cs arbitrary: s) (simp_all add: board_ok_exec)

lemma running_game:
  assumes b: "board_ok s0" and n: "1 \<le> n" and perm: "mset deck = mset (TERRITORIES s0)"
  shows "board_ok (run cs (snd (reset n deck s0))) \<and>
         players_ok n (run cs (snd (reset n deck s0))) \<and>
         dicts_ok (run cs (snd (reset n deck s0))) \<and>
         game_inv n (run cs (snd (reset n deck s0)))"
proof -
  have T: "TERRITORIES s0 = TERRITORIES module_init"
    using b by (simp add: board_ok_def)
  have "board_ok (snd (reset n deck s0))"
    using b by (rule board_ok_fields [rotated 2]) (simp_all add: reset_fields [OF n])
  then have "board_ok (run cs (snd (reset n deck s0)))"
    by (rule board_ok_run)
  moreover from reset_inv [OF T n perm]
  have "players_ok n (run cs (snd (reset n deck s0))) \<and>
        dicts_ok (run cs (snd (reset n deck s0))) \<and>
        game_inv n (run cs (snd (reset n deck s0)))"
    by (intro run_inv) simp_all
  ultimately show ?thesis by simp
qed

text \<open>
  Claim C7. After \<^verbatim>\<open>reset(n)\<close> with \<open>n \<ge> 1\<close> and any calls that followed, the turn
  pointer lies in \<open>[0, n)\<close>; one call of \<^verbatim>\<open>next_player()\<close> returns normally and sets it
  to \<open>(current + 1) mod n\<close>, changing nothing else; from player \<open>n - 1\<close> it wraps to
  player 0; and \<open>n\<close> calls in a row give back the state they started from.
\<close>

theorem next_player_cyclic:
  "1 \<le> n \<Longrightarrow>
     (let s = run cs (snd (reset n deck s0)) in
        0 \<le> CUR s \<and> CUR s < n \<and>
        next_player s = (Inr (), s\<lparr>CUR := (CUR s + 1) mod n\<rparr>) \<and>
        (CUR s = n - 1 \<longrightarrow> CUR (snd (next_player s)) = 0) \<and>
        ((\<lambda>s. snd (next_player s)) ^^ nat n) s = s)"
proof -
  assume n: "1 \<le> n"
  let ?s = "run cs (snd (reset n deck s0))"
  have ok: "players_ok n ?s"
    by (rule players_ok_run [OF reset_players_ok [OF n]])
  from ok have "0 \<le> CUR ?s" "CUR ?s < n" by (simp_all add: players_ok_def)
  moreover have "((\<lambda>s. snd (next_player s)) ^^ nat n) ?s = ?s"
    using next_player_iter [OF ok, of "nat n"] ok by (simp add: players_ok_def)
  ultimately show ?thesis
    unfolding Let_def using next_player_step [OF ok] by simp
qed

theorem next_player_cyclic_witness:
  "(1::int) \<le> 3 \<and>
   CUR (run [Next_player, Next_player]
      (snd (reset 3 (TERRITORIES module_init) module_init))) = 3 - 1 \<and>
   CUR (snd (next_player (run [Next_player, Next_player]
      (snd (reset 3 (TERRITORIES module_init) module_init))))) = 0 \<and>
   ((\<lambda>s. snd (next_player s)) ^^ nat 3)
      (run [Next_player, Next_player] (snd (reset 3 (TERRITORIES module_init) module_init))) =
     run [Next_player, Next_player] (snd (reset 3 (TERRITORIES module_init) module_init))"
proof -
  define s0 where "s0 = snd (reset 3 (TERRITORIES module_init) module_init)"
  define s2 where "s2 = run [Next_player, Next_player] s0"
  have ok0: "players_ok 3 s0"
    unfolding s0_def by (rule reset_players_ok) simp
  have cur0: "CUR s0 = 0"
    unfolding s0_def by (rule reset_CUR) simp
  have ok1: "players_ok 3 (snd (next_player s0))"
    by (rule players_ok_next [OF ok0])
  have cur2: "CUR s2 = 2"
    unfolding s2_def run_def
    using next_player_step [OF ok0] next_player_step [OF ok1] cur0 by simp
  note main = next_player_cyclic [of 3 "[Next_player, Next_player]"
      "TERRITORIES module_init" module_init, unfolded Let_def, folded s0_def, folded s2_def]
  from main cur2 show ?thesis
    unfolding s2_def s0_def by simp
qed

subsection \<open>The end of the game\<close>

lemma all_owned_by_eq:
  "\<forall>t\<in>set ts. \<exists>p. map_of d t = Some p \<Longrightarrow>
     all_owned_by d first ts = Inr (\<forall>t\<in>set ts. map_of d t = Some first)"
  by (induction ts) (auto simp: getitem_def)

lemma territories_nonempty: "TERRITORIES module_init \<noteq> []"
  using Alaska_territory by auto

lemma game_over_value:
  assumes T: "TERRITORIES s = TERRITORIES module_init" and d: "dicts_ok s"
  shows "game_over s =
           (Inr (\<forall>t\<in>set (TERRITORIES s).
                   map_of (OWNER s) t = map_of (OWNER s) (hd (TERRITORIES s))), s)"
proof -
  have ne: "TERRITORIES s \<noteq> []" by (simp add: T territories_nonempty)
  then have hd: "hd (TERRITORIES s) \<in> set (TERRITORIES s)" by simp
  have all: "\<forall>t\<in>set (TERRITORIES s). \<exists>p. map_of (OWNER s) t = Some p"
    using d dicts_ok_lookup by blast
  then obtain first where first: "map_of (OWNER s) (hd (TERRITORIES s)) = Some first"
    using hd by blast
  have "list_getitem (TERRITORIES s) 0 = Inr (hd (TERRITORIES s))"
    using ne by (simp add: list_getitem_def hd_conv_nth)
  then show ?thesis
    by (simp add: game_over_def getitem_Some [OF first] all_owned_by_eq [OF all] first)
qed

text \<open>
  Claim C5. In a game on the built board (both dictionaries have the territories as
  keys, as in every state reached after \<^verbatim>\<open>reset\<close>, see \<open>running_game\<close>),
  \<^verbatim>\<open>game_over()\<close> returns normally, without changing the state, and its result
  is true exactly when every territory has the owner of the first territory of the
  sorted name list, which is the case exactly when all territories have one and the same
  owner. Nothing else enters the result: the troop counts and the turn pointer do not.
\<close>

theorem game_over_single_owner:
  "TERRITORIES s = TERRITORIES module_init \<Longrightarrow> dicts_ok s \<Longrightarrow>
     sorted (TERRITORIES s) \<and> TERRITORIES s \<noteq> [] \<and>
     game_over s =
       (Inr (\<forall>t\<in>set (TERRITORIES s).
               map_of (OWNER s) t = map_of (OWNER s) (hd (TERRITORIES s))), s) \<and>
     ((\<forall>t\<in>set (TERRITORIES s). map_of (OWNER s) t = map_of (OWNER s) (hd (TERRITORIES s)))
        \<longleftrightarrow> (\<exists>p. \<forall>t\<in>set (TERRITORIES s). map_of (OWNER s) t = Some p))"
proof -
  assume T: "TERRITORIES s = TERRITORIES module_init" and d: "dicts_ok s"
  have ne: "TERRITORIES s \<noteq> []" by (simp add: T territories_nonempty)
  then have hd: "hd (TERRITORIES s) \<in> set (TERRITORIES s)" by simp
  obtain first where first: "map_of (OWNER s) (hd (TERRITORIES s)) = Some first"
    using d dicts_ok_lookup hd by blast
  have "(\<forall>t\<in>set (TERRITORIES s). map_of (OWNER s) t = map_of (OWNER s) (hd (TERRITORIES s)))
        \<longleftrightarrow> (\<exists>p. \<forall>t\<in>set (TERRITORIES s). map_of (OWNER s) t = Some p)"
    using hd first by (metis)
  then show ?thesis
    using ne game_over_value [OF T d] by (simp add: T sorted_TERRITORIES_init)
qed

lemma two_territories: "2 \<le> length (TERRITORIES module_init)"
proof -
  have "{''Alaska'', ''Kamchatka''} \<subseteq> set (TERRITORIES module_init)"
    using Alaska_territory Kamchatka_territory by simp
  then have "card {''Alaska'', ''Kamchatka''} \<le> card (set (TERRITORIES module_init))"
    by (intro card_mono) simp_all
  also have "\<dots> \<le> length (TERRITORIES module_init)" by (rule card_length)
  finally show ?thesis by simp
qed

lemma game2_owner_nth:
  "j < length (TERRITORIES module_init) \<Longrightarrow>
     map_of (OWNER game2) (TERRITORIES module_init ! j) = Some (int j mod 2)"
  using reset_owner_nth [of module_init 2 "TERRITORIES module_init" j]
  unfolding game2_def [symmetric] by simp

lemma game2_not_over:
  "\<not> (\<forall>t\<in>set (TERRITORIES game2).
         map_of (OWNER game2) t = map_of (OWNER game2) (hd (TERRITORIES game2)))"
proof -
  let ?T = "TERRITORIES module_init"
  have 0: "map_of (OWNER game2) (hd ?T) = Some 0"
    using game2_owner_nth [of 0] two_territories territories_nonempty
    by (simp add: hd_conv_nth)
  have 1: "map_of (OWNER game2) (?T ! 1) = Some 1"
    using game2_owner_nth [of 1] two_territories by simp
  have mem: "?T ! 1 \<in> set ?T" using two_territories by simp
  show ?thesis
    unfolding game2_fields(4)
  proof
    assume "\<forall>t\<in>set ?T. map_of (OWNER game2) t = map_of (OWNER game2) (hd ?T)"
    with mem have "map_of (OWNER game2) (?T ! 1) = map_of (OWNER game2) (hd ?T)"
      by blast
    with 0 1 show False by simp
  qed
qed

lemma conquered_fields:
  "TERRITORIES conquered = TERRITORIES module_init"
  "OWNER conquered = map (\<lambda>t. (t, 0)) (TERRITORIES module_init)"
  "TROOPS conquered = TROOPS game2"
  by (simp_all add: conquered_def game2_fields)

lemma dicts_ok_conquered: "dicts_ok conquered"
  using dicts_ok_game2
  by (simp add: dicts_ok_def conquered_fields game2_fields comp_def)

lemma conquered_owner:
  "t \<in> set (TERRITORIES conquered) \<Longrightarrow> map_of (OWNER conquered) t = Some 0"
  by (simp add: conquered_fields map_of_map_restrict)

theorem game_over_single_owner_witness:
  "TERRITORIES game2 = TERRITORIES module_init \<and> dicts_ok game2 \<and>
   game_over game2 = (Inr False, game2) \<and>
   TERRITORIES conquered = TERRITORIES module_init \<and> dicts_ok conquered \<and>
   game_over conquered = (Inr True, conquered)"
proof -
  note g = game_over_single_owner [OF game2_fields(4) dicts_ok_game2]
  from g have "game_over game2 =
      (Inr (\<forall>t\<in>set (TERRITORIES game2).
               map_of (OWNER game2) t = map_of (OWNER game2) (hd (TERRITORIES game2))), game2)"
    by (elim conjE)
  then have 1: "game_over game2 = (Inr False, game2)"
    by (simp only: game2_not_over)
  note c = game_over_single_owner [OF conquered_fields(1) dicts_ok_conquered]
  have hd: "hd (TERRITORIES conquered) \<in> set (TERRITORIES conquered)"
    using territories_nonempty by (simp add: conquered_fields(1))
  have all: "\<forall>t\<in>set (TERRITORIES conquered).
          map_of (OWNER conquered) t = map_of (OWNER conquered) (hd (TERRITORIES conquered))"
    using conquered_owner [OF hd] conquered_owner by simp
  from c have "game_over conquered =
      (Inr (\<forall>t\<in>set (TERRITORIES conquered).
               map_of (OWNER conquered) t = map_of (OWNER conquered) (hd (TERRITORIES conquered))),
       conquered)"
    by (elim conjE)
  then have 2: "game_over conquered = (Inr True, conquered)"
    by (simp only: eqTrueI [OF all])
  from 1 2 game2_fields(4) conquered_fields(1) dicts_ok_game2 dicts_ok_conquered
  show ?thesis by (intro conjI)
qed

subsection \<open>Decimal numerals\<close>

lemma of_char_digit_char: "d < 10 \<Longrightarrow> (of_char (digit_char d) :: nat) = 48 + d"
  by (simp add: digit_char_def)

lemma is_digit_digit_char: "d < 10 \<Longrightarrow> is_digit (digit_char d)"
  by (simp add: is_digit_def of_char_digit_char)

lemma str_nat_digits: "\<forall>c\<in>set (str_nat n). is_digit c"
proof (induction n rule: str_nat.induct)
  case (1 n)
  show ?case
  proof (cases "n < 10")
    case True
    then show ?thesis by (subst str_nat.simps) (simp add: is_digit_digit_char)
  next
    case False
    with 1 show ?thesis by (subst str_nat.simps) (simp add: is_digit_digit_char)
  qed
qed

lemma str_nat_nonempty: "str_nat n \<noteq> []"
  by (subst str_nat.simps) simp

lemma spec_nat_of_digits_append:
  "spec_nat_of_digits (xs @ ys) acc =
     (case spec_nat_of_digits xs acc of None \<Rightarrow> None | Some a \<Rightarrow> spec_nat_of_digits ys a)"
  by (induction xs arbitrary: acc) simp_all

lemma spec_nat_of_digits_str_nat: "spec_nat_of_digits (str_nat n) 0 = Some n"
proof (induction n rule: str_nat.induct)
  case (1 n)
  show ?case
  proof (cases "n < 10")
    case True
    then show ?thesis
      by (subst str_nat.simps) (simp add: of_char_digit_char is_digit_digit_char)
  next
    case False
    with 1 show ?thesis
      by (subst str_nat.simps)
        (simp add: spec_nat_of_digits_append of_char_digit_char is_digit_digit_char)
  qed
qed

lemma is_digit_not_special:
  "is_digit c \<Longrightarrow> c \<noteq> CHR '' '' \<and> c \<noteq> CHR ''-'' \<and> \<not> is_linebreak c"
  by (auto simp: is_digit_def is_linebreak_def)

lemma str_int_chars: "\<forall>c\<in>set (str_int i). c \<noteq> CHR '' '' \<and> \<not> is_linebreak c"
  using str_nat_digits is_digit_not_special
  by (auto simp: str_int_def is_linebreak_def)

lemma str_int_nonempty: "str_int i \<noteq> []"
  by (simp add: str_int_def str_nat_nonempty)

lemma hd_str_nat_not_minus: "hd (str_nat n) \<noteq> CHR ''-''"
  using str_nat_digits [of n] str_nat_nonempty [of n] is_digit_not_special
  by (cases "str_nat n") auto

lemma spec_int_of_str_str_int: "spec_int_of_str (str_int i) = Some i"
proof (cases "i < 0")
  case True
  then show ?thesis
    by (simp add: spec_int_of_str_def str_int_def str_nat_nonempty spec_nat_of_digits_str_nat)
next
  case False
  obtain c cs where s: "str_nat (nat i) = c # cs"
    using str_nat_nonempty [of "nat i"] by (cases "str_nat (nat i)") auto
  then have "c \<noteq> CHR ''-''" using hd_str_nat_not_minus [of "nat i"] by simp
  with False s show ?thesis
    using spec_nat_of_digits_str_nat [of "nat i"]
    by (simp add: spec_int_of_str_def str_int_def)
qed

subsection \<open>The map dump\<close>

lemma length_fmt_s: "length t \<le> w \<Longrightarrow> length (fmt_s w t) = w"
  by (simp add: fmt_s_def)

lemma rstrip_fmt_s:
  "t = [] \<or> last t \<noteq> CHR '' '' \<Longrightarrow>
     rev (dropWhile (\<lambda>c. c = CHR '' '') (rev (fmt_s w t))) = t"
proof -
  assume a: "t = [] \<or> last t \<noteq> CHR '' ''"
  have "dropWhile (\<lambda>c. c = CHR '' '') (replicate (w - length t) CHR '' '' @ rev t) =
          dropWhile (\<lambda>c. c = CHR '' '') (rev t)"
    by (rule dropWhile_append2) simp
  also have "\<dots> = rev t"
    using a by (cases "rev t") (auto simp: last_rev hd_rev dest: arg_cong [where f = hd])
  finally show ?thesis by (simp add: fmt_s_def)
qed

lemma field_fmt_d:
  "dropWhile (\<lambda>c. c = CHR '' '') (fmt_d w k @ CHR '' '' # rest) = str_int k @ CHR '' '' # rest"
proof -
  obtain c cs where s: "str_int k = c # cs"
    using str_int_nonempty [of k] by (cases "str_int k") auto
  then have c: "c \<noteq> CHR '' ''" using str_int_chars [of k] by simp
  have "dropWhile (\<lambda>c. c = CHR '' '')
          (replicate (w - length (str_int k)) CHR '' '' @ str_int k @ CHR '' '' # rest) =
        dropWhile (\<lambda>c. c = CHR '' '') (str_int k @ CHR '' '' # rest)"
    by (rule dropWhile_append2) simp
  then show ?thesis using c by (simp add: fmt_d_def s)
qed

lemma takeWhile_str_int:
  "takeWhile (\<lambda>c. c \<noteq> CHR '' '') (str_int k @ CHR '' '' # rest) = str_int k"
  using str_int_chars [of k] by simp

lemma dropWhile_str_int:
  "dropWhile (\<lambda>c. c \<noteq> CHR '' '') (str_int k @ CHR '' '' # rest) = CHR '' '' # rest"
  using str_int_chars [of k] by simp

lemma parse_formatted_line:
  assumes len: "length t \<le> 24" and sp: "t = [] \<or> last t \<noteq> CHR '' ''"
  shows "spec_parse_map_line
           (fmt_s 24 t @ '' troops='' @ fmt_d 2 k @ '' owner=AI'' @ str_int p) = Some (t, k, p)"
proof -
  let ?l = "fmt_s 24 t @ '' troops='' @ fmt_d 2 k @ '' owner=AI'' @ str_int p"
  have 1: "take 24 ?l = fmt_s 24 t" "drop 24 ?l = '' troops='' @ fmt_d 2 k @ '' owner=AI'' @ str_int p"
    using length_fmt_s [OF len] by simp_all
  show ?thesis
    unfolding spec_parse_map_line_def Let_def 1
    by (simp add: rstrip_fmt_s [OF sp] field_fmt_d takeWhile_str_int dropWhile_str_int
          spec_int_of_str_str_int)
qed

lemma names_checked:
  "\<forall>t\<in>set (TERRITORIES module_init).
     length t \<le> 24 \<and> t \<noteq> [] \<and> last t \<noteq> CHR '' '' \<and> (\<forall>c\<in>set t. \<not> is_linebreak c)"
  unfolding set_TERRITORIES_init names_of_pairs chain_pairs_eq by code_simp

lemma map_line_value:
  "map_of (TROOPS s) t = Some k \<Longrightarrow> map_of (OWNER s) t = Some p \<Longrightarrow>
     map_line s t = Inr (fmt_s 24 t @ '' troops='' @ fmt_d 2 k @ '' owner=AI'' @ str_int p)"
  by (simp add: map_line_def getitem_Some)

lemma map_lines_ok:
  "\<forall>t\<in>set ts. \<exists>l. map_line s t = Inr l \<Longrightarrow>
     \<exists>ls. map_lines s ts = Inr ls \<and> map Inr ls = map (map_line s) ts"
  by (induction ts) auto

lemma ball_replicate: "P x \<Longrightarrow> \<forall>c\<in>set (replicate n x). P c"
  by (induction n) simp_all

lemma space_plain: "\<not> is_linebreak CHR '' ''"
  by (simp add: is_linebreak_def)

lemma fmt_s_plain:
  "\<forall>c\<in>set t. \<not> is_linebreak c \<Longrightarrow> \<forall>c\<in>set (fmt_s w t). \<not> is_linebreak c"
  unfolding fmt_s_def set_append ball_Un
  using ball_replicate [of "\<lambda>c. \<not> is_linebreak c", OF space_plain] by blast

lemma fmt_d_plain: "\<forall>c\<in>set (fmt_d w k). \<not> is_linebreak c"
  unfolding fmt_d_def set_append ball_Un
  using str_int_chars [of k] ball_replicate [of "\<lambda>c. \<not> is_linebreak c", OF space_plain]
  by blast

lemma labels_plain:
  "\<forall>c\<in>set '' troops=''. \<not> is_linebreak c" "\<forall>c\<in>set '' owner=AI''. \<not> is_linebreak c"
  by code_simp+

lemma line_plain:
  "\<forall>c\<in>set t. \<not> is_linebreak c \<Longrightarrow>
     \<forall>c\<in>set (fmt_s 24 t @ '' troops='' @ fmt_d 2 k @ '' owner=AI'' @ str_int p).
        \<not> is_linebreak c"
proof -
  assume t: "\<forall>c\<in>set t. \<not> is_linebreak c"
  have own: "\<forall>c\<in>set (str_int p). \<not> is_linebreak c"
    using str_int_chars [of p] by blast
  from fmt_s_plain [OF t, of 24] labels_plain(1) fmt_d_plain [of 2 k] labels_plain(2) own
  show ?thesis
    unfolding set_append ball_Un by (intro conjI)
qed

lemma get_map_lines:
  assumes T: "TERRITORIES s = TERRITORIES module_init" and d: "dicts_ok s"
  shows "\<exists>ls. get_map s = (Inr (join_lines ls), s) \<and> splitlines (join_lines ls) = ls \<and>
              length ls = length (TERRITORIES s) \<and>
              map Inr ls = map (map_line s) (TERRITORIES s)"
proof -
  have line: "\<exists>k p. map_line s t =
                 Inr (fmt_s 24 t @ '' troops='' @ fmt_d 2 k @ '' owner=AI'' @ str_int p)"
    if "t \<in> set (TERRITORIES s)" for t
    using dicts_ok_lookup [OF d that] map_line_value [of s t] by blast
  then obtain ls where ls: "map_lines s (TERRITORIES s) = Inr ls"
    and eq: "map Inr ls = map (map_line s) (TERRITORIES s)"
    using map_lines_ok [of "TERRITORIES s" s] by blast
  have len: "length ls = length (TERRITORIES s)"
    using arg_cong [OF eq, of length] by simp
  have each: "l \<noteq> [] \<and> (\<forall>c\<in>set l. \<not> is_linebreak c)" if "l \<in> set ls" for l
  proof -
    from that obtain i where i: "i < length ls" "l = ls ! i"
      by (auto simp: in_set_conv_nth)
    let ?t = "TERRITORIES s ! i"
    have t: "?t \<in> set (TERRITORIES s)" using i len by simp
    have "Inr l = map_line s ?t"
      using arg_cong [OF eq, of "\<lambda>xs. xs ! i"] i len by simp
    with line [OF t] obtain k p where
      l: "l = fmt_s 24 ?t @ '' troops='' @ fmt_d 2 k @ '' owner=AI'' @ str_int p"
      by auto
    have "\<forall>c\<in>set ?t. \<not> is_linebreak c"
      using names_checked t by (simp add: T)
    from line_plain [OF this, of k p] show ?thesis
      unfolding l by simp
  qed
  have ne: "ls \<noteq> []"
    using len territories_nonempty by (auto simp: T)
  then have "last ls \<noteq> []" using each [of "last ls"] by simp
  with each ne have "splitlines (join_lines ls) = ls"
    by (intro splitlines_join) auto
  moreover have "get_map s = (Inr (join_lines ls), s)"
    by (simp add: get_map_def ls)
  ultimately show ?thesis
    using len eq by blast
qed

text \<open>
  Claim C8. In a game on the built board (every state reached after \<^verbatim>\<open>reset\<close>, see
  \<open>running_game\<close>), \<^verbatim>\<open>get_map()\<close> returns normally, without
  changing the state, a text made of lines joined by newlines; splitting the text into
  lines gives those lines back, as many as there are territories; the \<open>i\<close>-th line is
  the line of the \<open>i\<close>-th territory of the sorted name list; and the line of a territory
  \<open>t\<close> with \<open>k\<close> troops and owner \<open>p\<close> is \<open>t\<close> filled with spaces to 24 columns, then
  \<^verbatim>\<open> troops=\<close>, then \<open>k\<close> right-aligned in 2 columns (filled with spaces, wider when
  \<open>k\<close> has more digits), then \<^verbatim>\<open> owner=AI\<close>, then \<open>p\<close>. Reading such a line by its
  columns gives back \<open>t\<close>, \<open>k\<close> and \<open>p\<close>.
\<close>

theorem get_map_format:
  "TERRITORIES s = TERRITORIES module_init \<Longrightarrow> dicts_ok s \<Longrightarrow>
     (\<exists>ls. get_map s = (Inr (join_lines ls), s) \<and> splitlines (join_lines ls) = ls \<and>
           length ls = length (TERRITORIES s) \<and>
           map Inr ls = map (map_line s) (TERRITORIES s)) \<and>
     sorted (TERRITORIES s) \<and>
     (\<forall>t\<in>set (TERRITORIES s). \<exists>k p.
        map_of (TROOPS s) t = Some k \<and> map_of (OWNER s) t = Some p \<and>
        map_line s t = Inr (fmt_s 24 t @ '' troops='' @ fmt_d 2 k @ '' owner=AI'' @ str_int p) \<and>
        length (fmt_s 24 t) = 24 \<and>
        spec_parse_map_line
          (fmt_s 24 t @ '' troops='' @ fmt_d 2 k @ '' owner=AI'' @ str_int p) = Some (t, k, p))"
proof -
  assume T: "TERRITORIES s = TERRITORIES module_init" and d: "dicts_ok s"
  have each: "\<exists>k p.
        map_of (TROOPS s) t = Some k \<and> map_of (OWNER s) t = Some p \<and>
        map_line s t = Inr (fmt_s 24 t @ '' troops='' @ fmt_d 2 k @ '' owner=AI'' @ str_int p) \<and>
        length (fmt_s 24 t) = 24 \<and>
        spec_parse_map_line
          (fmt_s 24 t @ '' troops='' @ fmt_d 2 k @ '' owner=AI'' @ str_int p) = Some (t, k, p)"
    if t: "t \<in> set (TERRITORIES s)" for t
  proof -
    from dicts_ok_lookup [OF d t] obtain k p where
      kp: "map_of (TROOPS s) t = Some k" "map_of (OWNER s) t = Some p" by blast
    have n: "length t \<le> 24" "t = [] \<or> last t \<noteq> CHR '' ''"
      using names_checked t by (simp_all add: T)
    from kp map_line_value [OF kp] length_fmt_s [OF n(1)] parse_formatted_line [OF n, of k p]
    show ?thesis by (intro exI [of _ k] exI [of _ p] conjI)
  qed
  have srt: "sorted (TERRITORIES s)"
    by (simp add: T sorted_TERRITORIES_init)
  from get_map_lines [OF T d] srt each show ?thesis
    by (intro conjI ballI) blast+
qed

lemma Alaska_line:
  "fmt_s 24 ''Alaska'' @ '' troops='' @ fmt_d 2 10 @ '' owner=AI'' @ str_int 0 =
     ''Alaska                   troops=10 owner=AI0''"
  by code_simp

lemma Kamchatka_line:
  "fmt_s 24 ''Kamchatka'' @ '' troops='' @ fmt_d 2 1 @ '' owner=AI'' @ str_int 1 =
     ''Kamchatka                troops= 1 owner=AI1''"
  by code_simp

theorem get_map_format_witness:
  "TERRITORIES (scenario 10) = TERRITORIES module_init \<and> dicts_ok (scenario 10) \<and>
   (\<exists>ls. get_map (scenario 10) = (Inr (join_lines ls), scenario 10) \<and>
         splitlines (join_lines ls) = ls \<and> length ls = length (TERRITORIES (scenario 10))) \<and>
   ''Alaska'' \<in> set (TERRITORIES (scenario 10)) \<and>
   map_line (scenario 10) ''Alaska'' = Inr ''Alaska                   troops=10 owner=AI0'' \<and>
   spec_parse_map_line ''Alaska                   troops=10 owner=AI0'' =
     Some (''Alaska'', 10, 0) \<and>
   ''Kamchatka'' \<in> set (TERRITORIES (scenario 10)) \<and>
   map_line (scenario 10) ''Kamchatka'' = Inr ''Kamchatka                troops= 1 owner=AI1'' \<and>
   spec_parse_map_line ''Kamchatka                troops= 1 owner=AI1'' =
     Some (''Kamchatka'', 1, 1)"
proof -
  note main = get_map_format [OF scenario_fields(3) dicts_ok_scenario, of 10]
  have A: "''Alaska'' \<in> set (TERRITORIES (scenario 10))"
    and K: "''Kamchatka'' \<in> set (TERRITORIES (scenario 10))"
    using Alaska_territory Kamchatka_territory by (simp_all add: scenario_fields)
  from main A obtain k p where
    a: "map_of (TROOPS (scenario 10)) ''Alaska'' = Some k"
       "map_of (OWNER (scenario 10)) ''Alaska'' = Some p"
       "map_line (scenario 10) ''Alaska'' =
          Inr (fmt_s 24 ''Alaska'' @ '' troops='' @ fmt_d 2 k @ '' owner=AI'' @ str_int p)"
       "spec_parse_map_line
          (fmt_s 24 ''Alaska'' @ '' troops='' @ fmt_d 2 k @ '' owner=AI'' @ str_int p) =
        Some (''Alaska'', k, p)"
    by blast
  then have kp: "k = 10" "p = 0"
    by (simp_all add: scenario_troops scenario_owner)
  from main K obtain k' p' where
    b: "map_of (TROOPS (scenario 10)) ''Kamchatka'' = Some k'"
       "map_of (OWNER (scenario 10)) ''Kamchatka'' = Some p'"
       "map_line (scenario 10) ''Kamchatka'' =
          Inr (fmt_s 24 ''Kamchatka'' @ '' troops='' @ fmt_d 2 k' @ '' owner=AI'' @ str_int p')"
       "spec_parse_map_line
          (fmt_s 24 ''Kamchatka'' @ '' troops='' @ fmt_d 2 k' @ '' owner=AI'' @ str_int p') =
        Some (''Kamchatka'', k', p')"
    by blast
  then have kp': "k' = 1" "p' = 1"
    by (simp_all add: scenario_troops scenario_owner)
  from main have ls: "\<exists>ls. get_map (scenario 10) = (Inr (join_lines ls), scenario 10) \<and>
         splitlines (join_lines ls) = ls \<and> length ls = length (TERRITORIES (scenario 10))"
    by blast
  from a(3,4) b(3,4) have
    "map_line (scenario 10) ''Alaska'' = Inr ''Alaska                   troops=10 owner=AI0''"
    "spec_parse_map_line ''Alaska                   troops=10 owner=AI0'' =
       Some (''Alaska'', 10, 0)"
    "map_line (scenario 10) ''Kamchatka'' = Inr ''Kamchatka                troops= 1 owner=AI1''"
    "spec_parse_map_line ''Kamchatka                troops= 1 owner=AI1'' =
       Some (''Kamchatka'', 1, 1)"
    unfolding kp kp' Alaska_line Kamchatka_line by blast+
  with ls A K scenario_fields(3) [of 10] dicts_ok_scenario [of 10] show ?thesis
    by (intro conjI)
qed

end
